theory Spec2Isabelle
  imports Complex_Main
begin

section \<open>Python builtins used by the script\<close>

text \<open>
  The script \<^verbatim>\<open>generate_windows_3d_data.py\<close> is a single procedure \<^verbatim>\<open>main\<close>. Its
  exceptions are modelled as values: a computation returns \<open>Inl e\<close> where the script
  raises and \<open>Inr v\<close> where it goes on with \<open>v\<close>. \<open>LibraryError\<close> stands for
  whatever a call into scikit-image raises.
\<close>

datatype error = ValueError | IndexError | AttributeError | LibraryError

text \<open>
  \<^verbatim>\<open>range(start, stop, step)\<close>: a zero step raises \<^verbatim>\<open>ValueError\<close>; a positive step
  counts up while the value is below \<open>stop\<close>, a negative step counts down while it is
  above \<open>stop\<close>. Both loops terminate.
\<close>

function range_up :: "int \<Rightarrow> int \<Rightarrow> int \<Rightarrow> int list" where
  "range_up i stop step =
     (if 0 < step \<and> i < stop then i # range_up (i + step) stop step else [])"
  by pat_completeness auto
termination
  by (relation "measure (\<lambda>(i, stop, step). nat (stop - i))") auto

function range_down :: "int \<Rightarrow> int \<Rightarrow> int \<Rightarrow> int list" where
  "range_down i stop step =
     (if step < 0 \<and> stop < i then i # range_down (i + step) stop step else [])"
  by pat_completeness auto
termination
  by (relation "measure (\<lambda>(i, stop, step). nat (i - stop))") auto

declare range_up.simps [simp del] range_down.simps [simp del]

definition range_py :: "int \<Rightarrow> int \<Rightarrow> int \<Rightarrow> error + int list" where
  "range_py start stop step =
     (if step = 0 then Inl ValueError
      else if 0 < step then Inr (range_up start stop step)
      else Inr (range_down start stop step))"

section \<open>The window planner (lines 122 to 127 of the script)\<close>

text \<open>
  One tile descriptor per iteration of the innermost loop: the slice index and the
  clamped bounds that the script puts into the file name and the manifest row. The
  planner is the loop nest of the script with the body of the innermost loop reduced
  to the descriptor it computes; the loop nest with the whole body is \<open>run_z\<close>
  below, and \<open>run_z_plan\<close> relates the two.
\<close>

record descriptor =
  slice_index :: int
  x_start :: int
  x_end :: int
  y_start :: int
  y_end :: int

text \<open>
  The three nested \<^verbatim>\<open>for\<close> loops, innermost first. \<open>H\<close> and \<open>W\<close> are
  \<^verbatim>\<open>data.shape[1]\<close> and \<^verbatim>\<open>data.shape[2]\<close>, which cannot be negative; \<open>window\<close> and
  \<open>overlap\<close> are the pairs (X, Y) parsed from the command line, any Python integers.
  Each \<^verbatim>\<open>range\<close> object is built when its loop is entered, so a zero stride on X is only
  noticed once the Y loop runs its first iteration.
\<close>

fun x_loop :: "nat \<Rightarrow> int \<times> int \<Rightarrow> int \<Rightarrow> int \<Rightarrow> int \<Rightarrow> int list
    \<Rightarrow> descriptor list \<Rightarrow> descriptor list" where
  "x_loop W window z yS yE [] acc = acc"
| "x_loop W window z yS yE (x # xs) acc =
     (let xS = min x (int W - fst window); xE = xS + fst window
      in x_loop W window z yS yE xs
           (acc @ [\<lparr>slice_index = z, x_start = xS, x_end = xE, y_start = yS, y_end = yE\<rparr>]))"

fun y_loop :: "nat \<Rightarrow> nat \<Rightarrow> int \<times> int \<Rightarrow> int \<times> int \<Rightarrow> int \<Rightarrow> int list
    \<Rightarrow> descriptor list \<Rightarrow> error + descriptor list" where
  "y_loop H W window overlap z [] acc = Inr acc"
| "y_loop H W window overlap z (y # ys) acc =
     (let yS = min y (int H - snd window); yE = yS + snd window
      in case range_py 0 (int W) (fst window - fst overlap) of
           Inl e \<Rightarrow> Inl e
         | Inr xs \<Rightarrow> y_loop H W window overlap z ys (x_loop W window z yS yE xs acc))"

fun z_loop :: "nat \<Rightarrow> nat \<Rightarrow> int \<times> int \<Rightarrow> int \<times> int \<Rightarrow> int list
    \<Rightarrow> descriptor list \<Rightarrow> error + descriptor list" where
  "z_loop H W window overlap [] acc = Inr acc"
| "z_loop H W window overlap (z # zs) acc =
     (case range_py 0 (int H) (snd window - snd overlap) of
        Inl e \<Rightarrow> Inl e
      | Inr ys \<Rightarrow>
          (case y_loop H W window overlap z ys acc of
             Inl e \<Rightarrow> Inl e
           | Inr acc' \<Rightarrow> z_loop H W window overlap zs acc'))"

definition plan :: "int \<Rightarrow> int \<Rightarrow> int \<Rightarrow> nat \<Rightarrow> nat \<Rightarrow> int \<times> int \<Rightarrow> int \<times> int
    \<Rightarrow> error + descriptor list" where
  "plan zS zE zskip H W window overlap =
     (case range_py zS zE zskip of
        Inl e \<Rightarrow> Inl e
      | Inr zs \<Rightarrow> z_loop H W window overlap zs [])"


text \<open>
  The windows that one spatial loop computes along its axis: the candidate starts of
  \<^verbatim>\<open>range(0, extent, w - ov)\<close>, each replaced by the pair (start, end) of lines 125 and
  127, \<^verbatim>\<open>sS = min(s, extent - w); sE = sS + w\<close>. A descriptor puts a slice index, a Y
  window and an X window together.
\<close>

definition clamp_window :: "nat \<Rightarrow> int \<Rightarrow> int \<Rightarrow> int \<times> int" where
  "clamp_window extent w s = (let sS = min s (int extent - w); sE = sS + w in (sS, sE))"

definition axis_windows :: "nat \<Rightarrow> int \<Rightarrow> int \<Rightarrow> error + (int \<times> int) list" where
  "axis_windows extent w ov =
     (case range_py 0 (int extent) (w - ov) of
        Inl e \<Rightarrow> Inl e
      | Inr ss \<Rightarrow> Inr (map (clamp_window extent w) ss))"

definition tile_of :: "int \<Rightarrow> int \<times> int \<Rightarrow> int \<times> int \<Rightarrow> descriptor" where
  "tile_of z yw xw =
     \<lparr>slice_index = z, x_start = fst xw, x_end = snd xw, y_start = fst yw, y_end = snd yw\<rparr>"

section \<open>The slice range (lines 97 to 99)\<close>

text \<open>
  \<^verbatim>\<open>str.split(sep)\<close> always returns at least one piece. The tuple assignment
  \<^verbatim>\<open>zS, zE = zrange.split('-')\<close> raises \<^verbatim>\<open>ValueError\<close> unless there are exactly two.
  The builtin \<^verbatim>\<open>int\<close> is a parameter \<open>py_int\<close> of the model; \<open>decimal\<close> is what it
  does on a plain string of ASCII digits.
\<close>

fun split_on :: "char \<Rightarrow> string \<Rightarrow> string list" where
  "split_on sep [] = [[]]"
| "split_on sep (c # cs) =
     (if c = sep then [] # split_on sep cs
      else (case split_on sep cs of
              [] \<Rightarrow> [[c]]
            | p # ps \<Rightarrow> (c # p) # ps))"

definition resolve_zrange :: "(string \<Rightarrow> error + int) \<Rightarrow> nat \<Rightarrow> string \<Rightarrow> error + int \<times> int" where
  "resolve_zrange py_int n_slices zrange =
     (case split_on CHR ''-'' zrange of
        [a, b] \<Rightarrow>
          (case (if a = ''start'' then Inr 0 else py_int a) of
             Inl e \<Rightarrow> Inl e
           | Inr zS \<Rightarrow>
               (case (if b = ''end'' then Inr (int n_slices) else py_int b) of
                  Inl e \<Rightarrow> Inl e
                | Inr zE \<Rightarrow> Inr (zS, zE)))
      | _ \<Rightarrow> Inl ValueError)"

definition is_digit :: "char \<Rightarrow> bool" where
  "is_digit c = (48 \<le> (of_char c :: nat) \<and> (of_char c :: nat) \<le> 57)"

definition decimal :: "string \<Rightarrow> error + int" where
  "decimal s =
     (if s = [] \<or> \<not> list_all is_digit s then Inl ValueError
      else Inr (int (foldl (\<lambda>a c. 10 * a + (of_char c - 48)) 0 s)))"

section \<open>Volumes and padding (lines 102 to 116)\<close>

text \<open>
  A volume is an array with three axes (slice, row, column). Its element type is kept
  as a kind: an integer type, the 64-bit floating type, or another floating type. A
  pixel is an exact rational or NaN, so the rounding of floating-point arithmetic is
  outside the model. \<open>wf_ndarray\<close> says that the nested lists have the extents of
  \<open>shape\<close>.
\<close>

datatype dkind = Integer | Float64 | FloatOther

datatype pixel = Val rat | NaN

record ndarray =
  dtype :: dkind
  shape :: "nat \<times> nat \<times> nat"
  vals :: "pixel list list list"

definition wf_ndarray :: "ndarray \<Rightarrow> bool" where
  "wf_ndarray a =
     (case shape a of (S, H, W) \<Rightarrow>
        length (vals a) = S \<and>
        list_all (\<lambda>sl. length sl = H \<and> list_all (\<lambda>row. length row = W) sl) (vals a))"

text \<open>
  \<^verbatim>\<open>np.median\<close> of a plane: the middle element of the sorted values, or the mean of the
  two middle ones; NaN on an empty plane and on a plane that holds a NaN.
\<close>

fun the_val :: "pixel \<Rightarrow> rat" where
  "the_val (Val q) = q"
| "the_val NaN = 0"

definition median :: "pixel list \<Rightarrow> pixel" where
  "median xs =
     (if xs = [] \<or> NaN \<in> set xs then NaN
      else (let s = sort (map the_val xs); n = length s
            in if odd n then Val (s ! (n div 2))
               else Val ((s ! (n div 2 - 1) + s ! (n div 2)) / 2)))"

text \<open>
  Storing a value into an array converts it to the array's element type: an integer
  array truncates towards zero. What storing NaN into an integer array does depends on
  the numpy at hand (it raises, or it stores some integer), so that outcome is a
  parameter \<open>nan_as_int\<close>.
\<close>

definition cast :: "error + pixel \<Rightarrow> dkind \<Rightarrow> pixel \<Rightarrow> error + pixel" where
  "cast nan_as_int k v =
     (case k of
        Integer \<Rightarrow>
          (case v of
             Val q \<Rightarrow> Inr (Val (if 0 \<le> q then of_int \<lfloor>q\<rfloor> else of_int \<lceil>q\<rceil>))
           | NaN \<Rightarrow> nan_as_int)
      | Float64 \<Rightarrow> Inr v
      | FloatOther \<Rightarrow> Inr v)"

text \<open>
  \<^verbatim>\<open>np.pad(a, ((oy, oy), (ox, ox)), 'constant', constant_values=c)\<close> on a plane \<open>a\<close> of
  width \<open>W\<close>: the result has the element type of \<open>a\<close>, so the constant is converted
  to it, to \<open>v\<close>, before it fills the border.
\<close>

definition np_pad :: "nat \<Rightarrow> pixel list list \<Rightarrow> nat \<Rightarrow> nat \<Rightarrow> pixel \<Rightarrow> pixel list list" where
  "np_pad W a oy ox v =
     (let edge = replicate oy (replicate (ox + W + ox) v)
      in edge @ map (\<lambda>row. replicate ox v @ row @ replicate ox v) a @ edge)"

text \<open>
  The padding branch. \<^verbatim>\<open>data[0, :, :]\<close> raises \<^verbatim>\<open>IndexError\<close> on a volume without slices;
  \<^verbatim>\<open>np.zeros\<close> refuses a negative extent and \<^verbatim>\<open>np.pad\<close> a negative margin, both with
  \<^verbatim>\<open>ValueError\<close>. \<^verbatim>\<open>np.zeros\<close> allocates 64-bit floating-point elements whatever the
  input holds, and every slice is padded with the same constant.
\<close>

definition pad :: "error + pixel \<Rightarrow> ndarray \<Rightarrow> int \<times> int \<Rightarrow> error + ndarray" where
  "pad nan_as_int data overlap =
     (case vals data of
        [] \<Rightarrow> Inl IndexError
      | first # _ \<Rightarrow>
          (let median = median (concat first) in
           case shape data of (slices, H, W) \<Rightarrow>
             let height = int H + 2 * snd overlap; width = int W + 2 * fst overlap
             in if height < 0 \<or> width < 0 then Inl ValueError
                else if snd overlap < 0 \<or> fst overlap < 0 then Inl ValueError
                else (case cast nan_as_int (dtype data) median of
                        Inl e \<Rightarrow> Inl e
                      | Inr v \<Rightarrow>
                          Inr \<lparr>dtype = Float64, shape = (slices, nat height, nat width),
                               vals = map (\<lambda>a. np_pad W a (nat (snd overlap))
                                                 (nat (fst overlap)) v)
                                          (vals data)\<rparr>)))"

section \<open>The libraries\<close>

text \<open>
  What the script calls and does not define is a parameter of the model: the builtin
  \<^verbatim>\<open>int\<close>; what the name \<^verbatim>\<open>np.float\<close> stands for (every floating type in old numpy,
  the 64-bit one from numpy 1.20, nothing from numpy 1.24, where looking it up raises
  \<^verbatim>\<open>AttributeError\<close>); what storing NaN into an integer array does; the conversion
  \<^verbatim>\<open>img_as_ubyte\<close> and the writer \<^verbatim>\<open>imsave\<close> of scikit-image, which may raise.
\<close>

record image =
  im_dtype :: dkind
  im_rows :: "pixel list list"

datatype np_float = AsFloating | AsFloat64 | Removed

record libs =
  lib_int :: "string \<Rightarrow> error + int"
  lib_np_float :: np_float
  lib_nan_as_int :: "error + pixel"
  lib_img_as_ubyte :: "image \<Rightarrow> error + image"
  lib_imsave :: "string \<Rightarrow> image \<Rightarrow> error + unit"

text \<open>
  \<open>ok_libs\<close> is a set of libraries for concrete runs: \<^verbatim>\<open>int\<close> reads digit strings,
  \<^verbatim>\<open>np.float\<close> means every floating type, storing NaN into an integer array raises,
  the conversion hands back the image as an integer one, and every image is written.
  \<open>libs_accept\<close> says of any libraries that rendering cannot fail in them.
\<close>

definition ok_libs :: libs where
  "ok_libs =
     \<lparr>lib_int = decimal, lib_np_float = AsFloating, lib_nan_as_int = Inl ValueError,
      lib_img_as_ubyte = (\<lambda>im. Inr (im\<lparr>im_dtype := Integer\<rparr>)),
      lib_imsave = (\<lambda>path im. Inr ())\<rparr>"


section \<open>Rendering and recording a tile (lines 128 to 134)\<close>

text \<open>
  Python indexing and slicing: a negative index counts from the end; an index out of
  range raises, a slice bound out of range is clipped.
\<close>

definition py_index :: "'a list \<Rightarrow> int \<Rightarrow> error + 'a" where
  "py_index xs i =
     (let n = int (length xs); j = (if i < 0 then i + n else i)
      in if 0 \<le> j \<and> j < n then Inr (xs ! nat j) else Inl IndexError)"

definition py_slice :: "int \<Rightarrow> int \<Rightarrow> 'a list \<Rightarrow> 'a list" where
  "py_slice i j xs =
     (let n = int (length xs);
          lo = (if i < 0 then max (i + n) 0 else min i n);
          hi = (if j < 0 then max (j + n) 0 else min j n)
      in take (nat (hi - lo)) (drop (nat lo) xs))"

definition roi_of :: "ndarray \<Rightarrow> descriptor \<Rightarrow> error + image" where
  "roi_of data d =
     (case py_index (vals data) (slice_index d) of
        Inl e \<Rightarrow> Inl e
      | Inr sl \<Rightarrow>
          Inr \<lparr>im_dtype = dtype data,
               im_rows = map (py_slice (x_start d) (x_end d))
                             (py_slice (y_start d) (y_end d) sl)\<rparr>)"

text \<open>\<^verbatim>\<open>np.issubdtype(roi.dtype, np.float)\<close>, by what \<^verbatim>\<open>np.float\<close> stands for.\<close>

definition issubdtype_float :: "np_float \<Rightarrow> dkind \<Rightarrow> error + bool" where
  "issubdtype_float f k =
     (case f of
        AsFloating \<Rightarrow> Inr (k \<noteq> Integer)
      | AsFloat64 \<Rightarrow> Inr (k = Float64)
      | Removed \<Rightarrow> Inl AttributeError)"

text \<open>\<^verbatim>\<open>str\<close> of an integer, the file name of line 129 and \<^verbatim>\<open>os.path.join\<close>.\<close>

function str_nat :: "nat \<Rightarrow> string" where
  "str_nat n =
     (if n < 10 then [''0123456789'' ! n]
      else str_nat (n div 10) @ [''0123456789'' ! (n mod 10)])"
  by pat_completeness auto
termination
  by (relation "measure id") auto

declare str_nat.simps [simp del]

definition str_int :: "int \<Rightarrow> string" where
  "str_int i = (if i < 0 then CHR ''-'' # str_nat (nat (- i)) else str_nat (nat i))"

definition fname_of :: "string \<Rightarrow> descriptor \<Rightarrow> string" where
  "fname_of pfx d =
     pfx @ ''_'' @ str_int (slice_index d) @ ''_'' @ str_int (x_start d) @ ''x''
       @ str_int (x_end d) @ ''x'' @ str_int (y_start d) @ ''x'' @ str_int (y_end d) @ ''.png''"

definition op_join :: "string \<Rightarrow> string \<Rightarrow> string" where
  "op_join a b =
     (if b \<noteq> [] \<and> hd b = CHR ''/'' then b
      else if a = [] \<or> last a = CHR ''/'' then a @ b
      else a @ ''/'' @ b)"

record manifest_record =
  m_filename :: string
  m_prefix :: string
  m_slice :: int
  m_xstart :: int
  m_xend :: int
  m_ystart :: int
  m_yend :: int
  m_source :: string
  m_transpose :: "string option"

record args =
  a_input_file_path :: string
  a_output_dir :: string
  a_pad :: bool
  a_window :: "int \<times> int"
  a_overlap :: "int \<times> int"
  a_zrange :: string
  a_zskip :: int
  a_prefix :: string
  a_fillcsv :: bool
  a_csv_filename :: string
  a_transpose :: "string option"

text \<open>
  What the loops leave behind: the images that \<^verbatim>\<open>imsave\<close> has written, in order, each
  under its file name, and the rows of \<^verbatim>\<open>csv_list\<close>. \<open>tile_step\<close> is the body of the
  innermost loop for one descriptor, \<open>tile_loop\<close> that body over a sequence of
  descriptors. The command-line values are taken as parsed: window and overlap as
  pairs (X, Y).
\<close>

record run_state =
  saved :: "(string \<times> image) list"
  csv_list :: "manifest_record list"

definition record_of :: "string \<Rightarrow> string \<Rightarrow> string option \<Rightarrow> descriptor \<Rightarrow> manifest_record" where
  "record_of pfx src tr d =
     \<lparr>m_filename = fname_of pfx d, m_prefix = pfx, m_slice = slice_index d,
      m_xstart = x_start d, m_xend = x_end d, m_ystart = y_start d, m_yend = y_end d,
      m_source = src, m_transpose = tr\<rparr>"

definition tile_step :: "libs \<Rightarrow> args \<Rightarrow> ndarray \<Rightarrow> descriptor \<Rightarrow> run_state
    \<Rightarrow> error + run_state" where
  "tile_step L a data d st =
     (case roi_of data d of
        Inl e \<Rightarrow> Inl e
      | Inr roi \<Rightarrow>
          (let fname = fname_of (a_prefix a) d
           in case issubdtype_float (lib_np_float L) (im_dtype roi) of
                Inl e \<Rightarrow> Inl e
              | Inr is_float \<Rightarrow>
                  (case (if is_float then lib_img_as_ubyte L roi else Inr roi) of
                     Inl e \<Rightarrow> Inl e
                   | Inr roi' \<Rightarrow>
                       (case lib_imsave L (op_join (a_output_dir a) fname) roi' of
                          Inl e \<Rightarrow> Inl e
                        | Inr u \<Rightarrow>
                            (let st' = st\<lparr>saved := saved st @ [(fname, roi')]\<rparr>
                             in Inr (if a_fillcsv a
                                     then st'\<lparr>csv_list := csv_list st' @
                                            [record_of (a_prefix a) (a_input_file_path a)
                                               (a_transpose a) d]\<rparr>
                                     else st'))))))"

fun tile_loop :: "libs \<Rightarrow> args \<Rightarrow> ndarray \<Rightarrow> descriptor list \<Rightarrow> run_state
    \<Rightarrow> error + run_state" where
  "tile_loop L a data [] st = Inr st"
| "tile_loop L a data (d # ds) st =
     (case tile_step L a data d st of
        Inl e \<Rightarrow> Inl e
      | Inr st' \<Rightarrow> tile_loop L a data ds st')"

section \<open>The manifest (lines 136 to 146)\<close>

text \<open>
  A table file is its sequence of rows, a row its sequence of cells; the quoting of
  the CSV text is not modelled. The file system maps the path of a regular file to its
  rows. \<^verbatim>\<open>DataFrame.to_csv\<close> writes the index of the frame, which counts the rows of
  this run from 0, as the first cell of every row.
\<close>

datatype cell = Text string | Number int | Blank

definition columns :: "string list" where
  "columns = [''filename'', ''prefix'', ''slice'', ''xstart'', ''xend'', ''ystart'', ''yend'',
              ''#source'', ''#transpose'']"

definition header_row :: "cell list" where
  "header_row = Text ''id'' # map Text columns"

definition record_cells :: "manifest_record \<Rightarrow> cell list" where
  "record_cells r =
     [Text (m_filename r), Text (m_prefix r), Number (m_slice r),
      Number (m_xstart r), Number (m_xend r), Number (m_ystart r), Number (m_yend r),
      Text (m_source r), (case m_transpose r of None \<Rightarrow> Blank | Some t \<Rightarrow> Text t)]"

definition body_row :: "nat \<times> manifest_record \<Rightarrow> cell list" where
  "body_row ir = (case ir of (i, r) \<Rightarrow> Number (int i) # record_cells r)"

definition body_rows :: "manifest_record list \<Rightarrow> cell list list" where
  "body_rows rs = map body_row (enumerate 0 rs)"

definition flush :: "(string \<rightharpoonup> cell list list) \<Rightarrow> string \<Rightarrow> string \<Rightarrow> manifest_record list
    \<Rightarrow> (string \<rightharpoonup> cell list list)" where
  "flush fs output csvfile rs =
     (let path = op_join output csvfile
      in case fs path of
           Some old \<Rightarrow> fs(path \<mapsto> old @ body_rows rs)
         | None \<Rightarrow> fs(path \<mapsto> header_row # body_rows rs))"

section \<open>The whole run\<close>

text \<open>
  The loop nest of lines 122 to 134 as the script runs it: the body of the innermost
  loop renders, saves and records the tile before the next candidate is looked at.
  An exception ends the run; what was saved before it is not part of the result.
\<close>

fun run_x :: "libs \<Rightarrow> args \<Rightarrow> ndarray \<Rightarrow> int \<Rightarrow> int \<Rightarrow> int \<Rightarrow> int list
    \<Rightarrow> run_state \<Rightarrow> error + run_state" where
  "run_x L a data z yS yE [] st = Inr st"
| "run_x L a data z yS yE (x # xs) st =
     (let xS = min x (int (snd (snd (shape data))) - fst (a_window a)); xE = xS + fst (a_window a)
      in case tile_step L a data
                \<lparr>slice_index = z, x_start = xS, x_end = xE, y_start = yS, y_end = yE\<rparr> st of
           Inl e \<Rightarrow> Inl e
         | Inr st' \<Rightarrow> run_x L a data z yS yE xs st')"

fun run_y :: "libs \<Rightarrow> args \<Rightarrow> ndarray \<Rightarrow> int \<Rightarrow> int list
    \<Rightarrow> run_state \<Rightarrow> error + run_state" where
  "run_y L a data z [] st = Inr st"
| "run_y L a data z (y # ys) st =
     (let yS = min y (int (fst (snd (shape data))) - snd (a_window a)); yE = yS + snd (a_window a)
      in case range_py 0 (int (snd (snd (shape data)))) (fst (a_window a) - fst (a_overlap a)) of
           Inl e \<Rightarrow> Inl e
         | Inr xs \<Rightarrow>
             (case run_x L a data z yS yE xs st of
                Inl e \<Rightarrow> Inl e
              | Inr st' \<Rightarrow> run_y L a data z ys st'))"

fun run_z :: "libs \<Rightarrow> args \<Rightarrow> ndarray \<Rightarrow> int list
    \<Rightarrow> run_state \<Rightarrow> error + run_state" where
  "run_z L a data [] st = Inr st"
| "run_z L a data (z # zs) st =
     (case range_py 0 (int (fst (snd (shape data)))) (snd (a_window a) - snd (a_overlap a)) of
        Inl e \<Rightarrow> Inl e
      | Inr ys \<Rightarrow>
          (case run_y L a data z ys st of
             Inl e \<Rightarrow> Inl e
           | Inr st' \<Rightarrow> run_z L a data zs st'))"

text \<open>
  \<open>main\<close> after the volume has been read and transposed: the slice range is resolved
  against the slice count, the volume is padded when asked, the loops run over the
  extents of the volume they are given, and the manifest is written when asked.
\<close>

definition main :: "libs \<Rightarrow> args \<Rightarrow> ndarray \<Rightarrow> (string \<rightharpoonup> cell list list)
    \<Rightarrow> error + (string \<times> image) list \<times> (string \<rightharpoonup> cell list list)" where
  "main L a data fs =
     (case resolve_zrange (lib_int L) (fst (shape data)) (a_zrange a) of
        Inl e \<Rightarrow> Inl e
      | Inr (zS, zE) \<Rightarrow>
          (case (if a_pad a then pad (lib_nan_as_int L) data (a_overlap a) else Inr data) of
             Inl e \<Rightarrow> Inl e
           | Inr data' \<Rightarrow>
               (case range_py zS zE (a_zskip a) of
                  Inl e \<Rightarrow> Inl e
                | Inr zs \<Rightarrow>
                    (case run_z L a data' zs \<lparr>saved = [], csv_list = []\<rparr> of
                       Inl e \<Rightarrow> Inl e
                     | Inr st \<Rightarrow>
                         Inr (saved st,
                              if a_fillcsv a
                              then flush fs (a_output_dir a) (a_csv_filename a) (csv_list st)
                              else fs)))))"

section \<open>Vocabulary for the order of enumeration\<close>

text \<open>
  A candidate is a triple (z, y, x) of loop variables, before clamping; \<open>tile_at\<close> is
  the descriptor the innermost loop body builds from it. \<open>candidate_before\<close> is the
  strict lexicographic order of the candidates: slice first, then Y, then X.
  \<open>emitted_before\<close> orders descriptors by slice and Y start, \<open>start_order\<close> by slice,
  Y start and X start.
\<close>

definition tile_at :: "nat \<Rightarrow> nat \<Rightarrow> int \<times> int \<Rightarrow> int \<times> int \<times> int \<Rightarrow> descriptor" where
  "tile_at H W window c =
     (case c of (z, y, x) \<Rightarrow>
        tile_of z (clamp_window H (snd window) y) (clamp_window W (fst window) x))"

definition candidate_before :: "int \<times> int \<times> int \<Rightarrow> int \<times> int \<times> int \<Rightarrow> bool" where
  "candidate_before a b =
     (case a of (z, y, x) \<Rightarrow> case b of (z', y', x') \<Rightarrow>
        z < z' \<or> (z = z' \<and> (y < y' \<or> (y = y' \<and> x < x'))))"

definition emitted_before :: "descriptor \<Rightarrow> descriptor \<Rightarrow> bool" where
  "emitted_before d d' =
     (slice_index d < slice_index d'
      \<or> (slice_index d = slice_index d' \<and> y_start d \<le> y_start d'))"

definition start_order :: "descriptor \<Rightarrow> descriptor \<Rightarrow> bool" where
  "start_order d d' =
     (slice_index d < slice_index d'
      \<or> (slice_index d = slice_index d'
          \<and> (y_start d < y_start d' \<or> (y_start d = y_start d' \<and> x_start d \<le> x_start d'))))"

section \<open>Facts about the loops\<close>

subsection \<open>The range object\<close>


lemma range_up_rec:
  "0 < step \<Longrightarrow> i < stop \<Longrightarrow> range_up i stop step = i # range_up (i + step) stop step"
  by (subst range_up.simps) simp

lemma range_up_Nil: "range_up i stop step = [] \<longleftrightarrow> \<not> (0 < step \<and> i < stop)"
  by (subst range_up.simps) simp

lemma range_down_Nil: "range_down i stop step = [] \<longleftrightarrow> \<not> (step < 0 \<and> stop < i)"
  by (subst range_down.simps) simp

lemma range_up_mem:
  "0 < step \<Longrightarrow> z \<in> set (range_up i stop step) \<longleftrightarrow> i \<le> z \<and> z < stop \<and> step dvd (z - i)"
proof (induction i stop step rule: range_up.induct)
  case (1 i stop step)
  show ?case
  proof (cases "i < stop")
    case False
    then have "range_up i stop step = []" by (simp add: range_up_Nil)
    with False show ?thesis by simp
  next
    case True
    have far: "i + step \<le> z" if "i \<le> z" "z \<noteq> i" "step dvd (z - i)"
    proof -
      from that have "0 < z - i" by simp
      with that(3) have "step \<le> z - i" by (rule zdvd_imp_le)
      then show ?thesis by simp
    qed
    have shift: "step dvd (z - (i + step)) \<longleftrightarrow> step dvd (z - i)"
    proof -
      have "z - i = (z - (i + step)) + step" by simp
      then show ?thesis by (metis dvd_add_triv_right_iff)
    qed
    have IH: "z \<in> set (range_up (i + step) stop step)
        \<longleftrightarrow> i + step \<le> z \<and> z < stop \<and> step dvd (z - (i + step))"
      using 1 True by simp
    have "z \<in> set (range_up i stop step) \<longleftrightarrow> z = i \<or> z \<in> set (range_up (i + step) stop step)"
      using 1(2) True by (simp add: range_up_rec)
    also have "\<dots> \<longleftrightarrow> i \<le> z \<and> z < stop \<and> step dvd (z - i)"
      unfolding IH shift using True 1(2) far by auto
    finally show ?thesis .
  qed
qed

lemma range_up_sorted: "sorted_wrt (<) (range_up i stop step)"
proof (induction i stop step rule: range_up.induct)
  case (1 i stop step)
  show ?case
  proof (cases "0 < step \<and> i < stop")
    case False
    then have "range_up i stop step = []" by (simp add: range_up_Nil)
    then show ?thesis by simp
  next
    case True
    then have gt: "\<forall>z \<in> set (range_up (i + step) stop step). i < z"
      by (simp add: range_up_mem)
    from True 1 have srt: "sorted_wrt (<) (range_up (i + step) stop step)" by blast
    from True have "range_up i stop step = i # range_up (i + step) stop step"
      by (simp add: range_up_rec)
    with gt srt show ?thesis by simp
  qed
qed

lemma range_up_cover:
  "0 < step \<Longrightarrow> i \<le> p \<Longrightarrow> p < stop \<Longrightarrow> \<exists>s \<in> set (range_up i stop step). s \<le> p \<and> p < s + step"
proof (induction i stop step rule: range_up.induct)
  case (1 i stop step)
  from 1(2-4) have go: "0 < step" "i < stop" by simp_all
  then have rec: "range_up i stop step = i # range_up (i + step) stop step"
    by (rule range_up_rec)
  show ?case
  proof (cases "p < i + step")
    case True
    with 1(3) show ?thesis unfolding rec by simp
  next
    case False
    with 1 go have "\<exists>s \<in> set (range_up (i + step) stop step). s \<le> p \<and> p < s + step" by simp
    then show ?thesis unfolding rec by simp
  qed
qed

lemma range_up_last:
  "0 < step \<Longrightarrow> i < stop \<Longrightarrow> stop - step \<le> last (range_up i stop step)"
proof (induction i stop step rule: range_up.induct)
  case (1 i stop step)
  from 1(2,3) have rec: "range_up i stop step = i # range_up (i + step) stop step"
    by (rule range_up_rec)
  show ?case
  proof (cases "i + step < stop")
    case True
    with 1 have "stop - step \<le> last (range_up (i + step) stop step)" by simp
    moreover from True 1(2) have "range_up (i + step) stop step \<noteq> []"
      by (simp add: range_up_Nil)
    ultimately show ?thesis unfolding rec by simp
  next
    case False
    with 1(2) have "range_up (i + step) stop step = []" by (simp add: range_up_Nil)
    with False show ?thesis unfolding rec by simp
  qed
qed

lemma range_up_ge: "z \<in> set (range_up i stop step) \<Longrightarrow> i \<le> z"
proof (cases "0 < step")
  case True
  assume "z \<in> set (range_up i stop step)"
  with True show ?thesis by (simp add: range_up_mem)
next
  case False
  then have "range_up i stop step = []" by (simp add: range_up_Nil)
  moreover assume "z \<in> set (range_up i stop step)"
  ultimately show ?thesis by simp
qed

subsection \<open>The loop nest as a product of axis windows\<close>

lemma x_loop_eq:
  "x_loop W window z yS yE xs acc
     = acc @ map (\<lambda>x. tile_of z (yS, yE) (clamp_window W (fst window) x)) xs"
  by (induction xs arbitrary: acc) (simp_all add: tile_of_def clamp_window_def Let_def)

lemma y_loop_eq:
  "y_loop H W window overlap z ys acc =
     (if ys = [] then Inr acc
      else case axis_windows W (fst window) (fst overlap) of
             Inl e \<Rightarrow> Inl e
           | Inr xws \<Rightarrow>
               Inr (acc @ concat (map (\<lambda>yw. map (tile_of z yw) xws)
                                      (map (clamp_window H (snd window)) ys))))"
proof (induction ys arbitrary: acc)
  case Nil
  show ?case by simp
next
  case (Cons y ys)
  show ?case
    by (cases "range_py 0 (int W) (fst window - fst overlap)")
       (simp_all add: Cons.IH x_loop_eq axis_windows_def clamp_window_def Let_def comp_def)
qed

lemma z_loop_eq:
  "z_loop H W window overlap zs acc =
     (if zs = [] then Inr acc
      else case axis_windows H (snd window) (snd overlap) of
             Inl e \<Rightarrow> Inl e
           | Inr yws \<Rightarrow>
               if yws = [] then Inr acc
               else case axis_windows W (fst window) (fst overlap) of
                      Inl e \<Rightarrow> Inl e
                    | Inr xws \<Rightarrow>
                        Inr (acc @ concat (map (\<lambda>z. concat (map (\<lambda>yw. map (tile_of z yw) xws) yws)) zs)))"
proof (induction zs arbitrary: acc)
  case Nil
  show ?case by simp
next
  case (Cons z zs)
  show ?case
    by (cases "range_py 0 (int H) (snd window - snd overlap)";
        cases "axis_windows W (fst window) (fst overlap)")
       (simp_all add: Cons.IH y_loop_eq axis_windows_def)
qed

lemma plan_eq:
  "plan zS zE zskip H W window overlap =
     (case range_py zS zE zskip of
        Inl e \<Rightarrow> Inl e
      | Inr zs \<Rightarrow>
          if zs = [] then Inr []
          else case axis_windows H (snd window) (snd overlap) of
                 Inl e \<Rightarrow> Inl e
               | Inr yws \<Rightarrow>
                   if yws = [] then Inr []
                   else case axis_windows W (fst window) (fst overlap) of
                          Inl e \<Rightarrow> Inl e
                        | Inr xws \<Rightarrow>
                            Inr (concat (map (\<lambda>z. concat (map (\<lambda>yw. map (tile_of z yw) xws) yws)) zs)))"
  by (simp add: plan_def z_loop_eq split: sum.splits)

lemma plan_InrE:
  assumes "plan zS zE zskip H W window overlap = Inr ds"
  obtains (empty) "ds = []"
  | (tiles) zs yws xws where
      "range_py zS zE zskip = Inr zs"
      "axis_windows H (snd window) (snd overlap) = Inr yws"
      "axis_windows W (fst window) (fst overlap) = Inr xws"
      "zs \<noteq> []" "yws \<noteq> []"
      "ds = concat (map (\<lambda>z. concat (map (\<lambda>yw. map (tile_of z yw) xws) yws)) zs)"
  using assms unfolding plan_eq by (auto split: sum.splits if_splits)

lemma axis_windows_mem:
  assumes "axis_windows extent w ov = Inr ws" and "sw \<in> set ws"
  shows "\<exists>s. 0 \<le> s \<and> sw = clamp_window extent w s"
proof -
  from assms obtain ss where ss: "range_py 0 (int extent) (w - ov) = Inr ss"
      and ws: "ws = map (clamp_window extent w) ss"
    by (auto simp: axis_windows_def split: sum.splits)
  from assms(2) ws obtain s where s: "s \<in> set ss" "sw = clamp_window extent w s" by auto
  have "0 \<le> s"
  proof (cases "0 < w - ov")
    case True
    with ss s(1) show ?thesis by (auto simp: range_py_def dest: range_up_ge)
  next
    case False
    with ss have "ss = []"
      by (auto simp: range_py_def range_down_Nil split: if_splits)
    with s(1) show ?thesis by simp
  qed
  with s(2) show ?thesis by blast
qed

lemma tiles_mem:
  "d \<in> set (concat (map (\<lambda>z. concat (map (\<lambda>yw. map (tile_of z yw) xws) yws)) zs))
     \<longleftrightarrow> (\<exists>z \<in> set zs. \<exists>yw \<in> set yws. \<exists>xw \<in> set xws. d = tile_of z yw xw)"
  by fastforce


lemma range_py_pos: "0 < step \<Longrightarrow> range_py i stop step = Inr (range_up i stop step)"
  by (simp add: range_py_def)

lemma axis_windows_neg: "w - ov < 0 \<Longrightarrow> axis_windows extent w ov = Inr []"
  by (simp add: axis_windows_def range_py_def range_down_Nil[THEN iffD2])

lemma axis_windows_zero: "w - ov = 0 \<Longrightarrow> axis_windows extent w ov = Inl ValueError"
  by (simp add: axis_windows_def range_py_def)

lemma axis_windows_pos:
  "0 < w - ov \<Longrightarrow> axis_windows extent w ov
     = Inr (map (clamp_window extent w) (range_up 0 (int extent) (w - ov)))"
  by (simp add: axis_windows_def range_py_def)

lemma axis_windows_total:
  "w - ov \<noteq> 0 \<Longrightarrow> \<exists>ws. axis_windows extent w ov = Inr ws"
  by (cases "0 < w - ov") (simp_all add: axis_windows_pos axis_windows_neg)

lemma axis_windows_oversize:
  assumes "axis_windows extent w ov = Inr ws" and "sw \<in> set ws" and "int extent < w"
  shows "sw = (int extent - w, int extent)"
proof -
  from axis_windows_mem[OF assms(1,2)] obtain s where "0 \<le> s" "sw = clamp_window extent w s"
    by blast
  with assms(3) show ?thesis by (simp add: clamp_window_def Let_def min_def)
qed




subsection \<open>Candidates in lexicographic order\<close>


lemma sorted_wrt_concat_map:
  assumes "sorted_wrt R xs" and "\<And>x. x \<in> set xs \<Longrightarrow> sorted_wrt Q (f x)"
    and "\<And>x x' a b. R x x' \<Longrightarrow> a \<in> set (f x) \<Longrightarrow> b \<in> set (f x') \<Longrightarrow> Q a b"
  shows "sorted_wrt Q (concat (map f xs))"
  using assms(1,2)
proof (induction xs)
  case Nil
  show ?case by simp
next
  case (Cons x xs)
  from Cons.prems(1) have R: "\<forall>x' \<in> set xs. R x x'" and srt: "sorted_wrt R xs" by simp_all
  from Cons.IH[OF srt] Cons.prems(2) have tl: "sorted_wrt Q (concat (map f xs))" by simp
  from Cons.prems(2) have hd: "sorted_wrt Q (f x)" by simp
  have "\<forall>a \<in> set (f x). \<forall>b \<in> set (concat (map f xs)). Q a b"
    using R assms(3) by auto
  with hd tl show ?case by (simp add: sorted_wrt_append)
qed

lemma candidates_sorted:
  assumes "sorted_wrt (<) zs" and "sorted_wrt (<) ys" and "sorted_wrt (<) xs"
  shows "sorted_wrt candidate_before
           (concat (map (\<lambda>z. concat (map (\<lambda>y. map (\<lambda>x. (z, y, x)) xs) ys)) zs))"
proof (rule sorted_wrt_concat_map[OF assms(1)])
  fix z
  show "sorted_wrt candidate_before (concat (map (\<lambda>y. map (\<lambda>x. (z, y, x)) xs) ys))"
  proof (rule sorted_wrt_concat_map[OF assms(2)])
    fix y
    from assms(3) show "sorted_wrt candidate_before (map (\<lambda>x. (z, y, x)) xs)"
      by (simp add: sorted_wrt_map candidate_before_def)
  next
    fix y y' :: int and a b
    assume "y < y'" "a \<in> set (map (\<lambda>x. (z, y, x)) xs)" "b \<in> set (map (\<lambda>x. (z, y', x)) xs)"
    then show "candidate_before a b" by (auto simp: candidate_before_def)
  qed
next
  fix z z' :: int and a b
  assume "z < z'" "a \<in> set (concat (map (\<lambda>y. map (\<lambda>x. (z, y, x)) xs) ys))"
    "b \<in> set (concat (map (\<lambda>y. map (\<lambda>x. (z', y, x)) xs) ys))"
  then show "candidate_before a b" by (auto simp: candidate_before_def)
qed

lemma tiles_as_candidates:
  "concat (map (\<lambda>z. concat (map (\<lambda>yw. map (tile_of z yw) (map (clamp_window W wx) xs))
                                   (map (clamp_window H wy) ys))) zs)
     = map (tile_at H W (wx, wy)) (concat (map (\<lambda>z. concat (map (\<lambda>y. map (\<lambda>x. (z, y, x)) xs) ys)) zs))"
  by (simp add: map_concat comp_def tile_at_def)

lemma axis_windows_InrE:
  assumes "axis_windows extent w ov = Inr ws"
  obtains ss where "ws = map (clamp_window extent w) ss" "sorted_wrt (<) ss" "\<forall>s \<in> set ss. 0 \<le> s"
proof -
  from assms obtain ss where ss: "range_py 0 (int extent) (w - ov) = Inr ss"
      and ws: "ws = map (clamp_window extent w) ss"
    by (auto simp: axis_windows_def split: sum.splits)
  show ?thesis
  proof (cases "0 < w - ov")
    case True
    with ss have "ss = range_up 0 (int extent) (w - ov)" by (simp add: range_py_def)
    then have "sorted_wrt (<) ss" "\<forall>s \<in> set ss. 0 \<le> s"
      by (auto simp: range_up_sorted dest: range_up_ge)
    with ws that show ?thesis by blast
  next
    case False
    with ss have "ss = []" by (auto simp: range_py_def range_down_Nil split: if_splits)
    with ws that show ?thesis by simp
  qed
qed


lemma tile_at_mono:
  assumes "candidate_before c c'"
  shows "emitted_before (tile_at H W window c) (tile_at H W window c')"
  using assms
  by (cases c; cases c')
     (auto simp: candidate_before_def emitted_before_def tile_at_def tile_of_def
                 clamp_window_def Let_def min_def)

lemma clamp_window_strict:
  assumes "distinct (map (clamp_window extent w) ys)" and "y \<in> set ys" and "y' \<in> set ys"
    and "y < y'"
  shows "fst (clamp_window extent w y) < fst (clamp_window extent w y')"
proof -
  from assms(1) have "inj_on (clamp_window extent w) (set ys)" by (simp add: distinct_map)
  with assms(2,3,4) have "clamp_window extent w y \<noteq> clamp_window extent w y'"
    by (auto dest: inj_onD)
  then have "fst (clamp_window extent w y) \<noteq> fst (clamp_window extent w y')"
    by (simp add: clamp_window_def Let_def)
  moreover from assms(4) have "fst (clamp_window extent w y) \<le> fst (clamp_window extent w y')"
    by (simp add: clamp_window_def Let_def min_def)
  ultimately show ?thesis by simp
qed

lemma tile_at_start_order:
  assumes "candidate_before c c'"
    and "fst (snd c) < fst (snd c') \<longrightarrow>
           fst (clamp_window H (snd window) (fst (snd c)))
             < fst (clamp_window H (snd window) (fst (snd c')))"
  shows "start_order (tile_at H W window c) (tile_at H W window c')"
proof -
  obtain z y x where c: "c = (z, y, x)" by (cases c) auto
  obtain z' y' x' where c': "c' = (z', y', x')" by (cases c') auto
  from assms(1) c c' consider (z) "z < z'" | (y) "z = z'" "y < y'" | (x) "z = z'" "y = y'" "x < x'"
    by (auto simp: candidate_before_def)
  then show ?thesis
  proof cases
    case z
    then show ?thesis by (simp add: start_order_def tile_at_def tile_of_def c c')
  next
    case y
    with assms(2) c c' show ?thesis
      by (simp add: start_order_def tile_at_def tile_of_def)
  next
    case x
    then show ?thesis
      by (simp add: start_order_def tile_at_def tile_of_def c c' clamp_window_def Let_def min_def)
  qed
qed

lemma plan_candidates:
  assumes "plan zS zE zskip H W window overlap = Inr ds" and "0 < zskip"
  obtains cs ys where
    "ds = map (tile_at H W window) cs" "sorted_wrt candidate_before cs"
    "\<forall>c \<in> set cs. zS \<le> fst c \<and> fst c < zE \<and> 0 \<le> fst (snd c) \<and> 0 \<le> snd (snd c)"
    "\<forall>c \<in> set cs. fst (snd c) \<in> set ys"
    "cs \<noteq> [] \<longrightarrow>
       axis_windows H (snd window) (snd overlap) = Inr (map (clamp_window H (snd window)) ys)"
  using assms(1)
proof (cases rule: plan_InrE)
  case empty
  then have "ds = map (tile_at H W window) []" by simp
  with that[of "[]" "[]"] show ?thesis by simp
next
  case (tiles zs yws xws)
  from tiles(1) assms(2) have zs: "zs = range_up zS zE zskip" by (simp add: range_py_def)
  then have zsrt: "sorted_wrt (<) zs" by (simp add: range_up_sorted)
  from zs assms(2) have zin: "\<forall>z \<in> set zs. zS \<le> z \<and> z < zE" by (simp add: range_up_mem)
  from tiles(2) obtain ys where ys: "yws = map (clamp_window H (snd window)) ys"
    "sorted_wrt (<) ys" "\<forall>s \<in> set ys. 0 \<le> s" by (rule axis_windows_InrE)
  from tiles(3) obtain xs where xs: "xws = map (clamp_window W (fst window)) xs"
    "sorted_wrt (<) xs" "\<forall>s \<in> set xs. 0 \<le> s" by (rule axis_windows_InrE)
  let ?cs = "concat (map (\<lambda>z. concat (map (\<lambda>y. map (\<lambda>x. (z, y, x)) xs) ys)) zs)"
  have 1: "ds = map (tile_at H W window) ?cs"
    using tiles_as_candidates[of W "fst window" xs H "snd window" ys zs]
    by (simp add: tiles(6) ys(1) xs(1))
  have 2: "sorted_wrt candidate_before ?cs"
    using zsrt ys(2) xs(2) by (rule candidates_sorted)
  have 3: "\<forall>c \<in> set ?cs. zS \<le> fst c \<and> fst c < zE \<and> 0 \<le> fst (snd c) \<and> 0 \<le> snd (snd c)"
    using zin ys(3) xs(3) by auto
  have 4: "\<forall>c \<in> set ?cs. fst (snd c) \<in> set ys" by auto
  have 5: "?cs \<noteq> [] \<longrightarrow>
       axis_windows H (snd window) (snd overlap) = Inr (map (clamp_window H (snd window)) ys)"
    using tiles(2) ys(1) by simp
  from that[OF 1 2 3 4 5] show ?thesis .
qed

subsection \<open>Rows of the manifest\<close>


lemma body_rows_length: "length (body_rows rs) = length rs"
  by (simp add: body_rows_def)

lemma body_rows_nth:
  "i < length rs \<Longrightarrow> body_rows rs ! i = Number (int i) # record_cells (rs ! i)"
  by (simp add: body_rows_def body_row_def nth_enumerate_eq)

lemma header_not_body: "header_row \<notin> set (body_rows rs)"
proof
  assume "header_row \<in> set (body_rows rs)"
  then obtain i where "i < length (body_rows rs)" "body_rows rs ! i = header_row"
    by (auto simp: in_set_conv_nth)
  then show False by (simp add: body_rows_length body_rows_nth header_row_def)
qed

subsection \<open>The tile loop\<close>

lemma tile_step_Inr:
  assumes "tile_step L a data d st = Inr st'"
  shows "\<exists>roi is_float roi'. roi_of data d = Inr roi
           \<and> issubdtype_float (lib_np_float L) (im_dtype roi) = Inr is_float
           \<and> (if is_float then lib_img_as_ubyte L roi else Inr roi) = Inr roi'
           \<and> saved st' = saved st @ [(fname_of (a_prefix a) d, roi')]
           \<and> csv_list st' = csv_list st @
                (if a_fillcsv a
                 then [record_of (a_prefix a) (a_input_file_path a) (a_transpose a) d] else [])"
proof -
  from assms obtain roi where roi: "roi_of data d = Inr roi"
    by (cases "roi_of data d") (simp_all add: tile_step_def)
  from assms roi obtain is_float where
    fl: "issubdtype_float (lib_np_float L) (im_dtype roi) = Inr is_float"
    by (cases "issubdtype_float (lib_np_float L) (im_dtype roi)")
       (simp_all add: tile_step_def Let_def)
  from assms roi fl obtain roi' where
    cv: "(if is_float then lib_img_as_ubyte L roi else Inr roi) = Inr roi'"
    by (cases "if is_float then lib_img_as_ubyte L roi else Inr roi")
       (simp_all add: tile_step_def Let_def)
  from assms roi fl cv obtain u where
    sv: "lib_imsave L (op_join (a_output_dir a) (fname_of (a_prefix a) d)) roi' = Inr u"
    by (cases "lib_imsave L (op_join (a_output_dir a) (fname_of (a_prefix a) d)) roi'")
       (simp_all add: tile_step_def Let_def)
  from assms roi fl cv sv have
    "saved st' = saved st @ [(fname_of (a_prefix a) d, roi')]"
    "csv_list st' = csv_list st @
       (if a_fillcsv a
        then [record_of (a_prefix a) (a_input_file_path a) (a_transpose a) d] else [])"
    by (auto simp: tile_step_def Let_def split: if_splits)
  with roi fl cv show ?thesis by blast
qed

lemma tile_loop_Inr:
  assumes "tile_loop L a data ds st = Inr st'"
  shows "map fst (saved st') = map fst (saved st) @ map (fname_of (a_prefix a)) ds
       \<and> csv_list st' = csv_list st @
            (if a_fillcsv a
             then map (record_of (a_prefix a) (a_input_file_path a) (a_transpose a)) ds else [])"
  using assms
proof (induction ds arbitrary: st)
  case Nil
  then show ?case by simp
next
  case (Cons d ds)
  from Cons.prems obtain st1 where
    s1: "tile_step L a data d st = Inr st1"
    and s2: "tile_loop L a data ds st1 = Inr st'"
    by (auto split: sum.splits)
  from tile_step_Inr[OF s1] have
    "map fst (saved st1) = map fst (saved st) @ [fname_of (a_prefix a) d]"
    "csv_list st1 = csv_list st @
       (if a_fillcsv a
        then [record_of (a_prefix a) (a_input_file_path a) (a_transpose a) d] else [])"
    by auto
  with Cons.IH[OF s2] show ?case by simp
qed


lemma roi_of_dtype: "roi_of data d = Inr roi \<Longrightarrow> im_dtype roi = dtype data"
  by (auto simp: roi_of_def split: sum.splits)

lemma roi_of_total:
  assumes "0 \<le> slice_index d" and "slice_index d < int (length (vals data))"
  shows "\<exists>roi. roi_of data d = Inr roi"
  using assms by (simp add: roi_of_def py_index_def Let_def)


lemma issubdtype_float_Integer:
  "f \<noteq> Removed \<Longrightarrow> issubdtype_float f Integer = Inr False"
  by (cases f) (simp_all add: issubdtype_float_def)

lemma issubdtype_float_Float64:
  "f \<noteq> Removed \<Longrightarrow> issubdtype_float f Float64 = Inr True"
  by (cases f) (simp_all add: issubdtype_float_def)




lemma tile_loop_Integer:
  assumes "dtype data = Integer" and "lib_np_float L \<noteq> Removed"
    and "\<forall>path im. lib_imsave L path im = Inr ()"
    and "\<forall>d \<in> set ds. 0 \<le> slice_index d \<and> slice_index d < int (length (vals data))"
  shows "\<exists>st'. tile_loop L a data ds st = Inr st'
           \<and> saved st' = saved st @ map (\<lambda>d. (fname_of (a_prefix a) d, projr (roi_of data d))) ds"
  using assms(4)
proof (induction ds arbitrary: st)
  case Nil
  show ?case by simp
next
  case (Cons d ds)
  from Cons.prems roi_of_total[of d data] obtain roi where roi: "roi_of data d = Inr roi" by auto
  with assms(1,2) have nf: "issubdtype_float (lib_np_float L) (im_dtype roi) = Inr False"
    by (simp add: roi_of_dtype issubdtype_float_Integer)
  let ?st1 = "st\<lparr>saved := saved st @ [(fname_of (a_prefix a) d, roi)]\<rparr>"
  let ?st2 = "if a_fillcsv a
              then ?st1\<lparr>csv_list := csv_list ?st1 @
                     [record_of (a_prefix a) (a_input_file_path a) (a_transpose a) d]\<rparr>
              else ?st1"
  have step: "tile_step L a data d st = Inr ?st2"
    using roi nf assms(3) by (simp add: tile_step_def Let_def)
  have sv: "saved ?st2 = saved st @ [(fname_of (a_prefix a) d, projr (roi_of data d))]"
    using roi by simp
  from Cons.prems have "\<forall>d \<in> set ds. 0 \<le> slice_index d \<and> slice_index d < int (length (vals data))"
    by simp
  from Cons.IH[OF this, of ?st2] obtain st' where
    "tile_loop L a data ds ?st2 = Inr st'"
    "saved st' = saved ?st2 @ map (\<lambda>d. (fname_of (a_prefix a) d, projr (roi_of data d))) ds"
    by blast
  with step sv show ?case by simp
qed

lemma tile_loop_append:
  "tile_loop L a data (ds @ ds') st =
     (case tile_loop L a data ds st of
        Inl e \<Rightarrow> Inl e
      | Inr st' \<Rightarrow> tile_loop L a data ds' st')"
  by (induction ds arbitrary: st) (simp_all split: sum.splits)

text \<open>
  The loop nest of the script and the planner followed by the tile loop give the same
  result: every \<^verbatim>\<open>range\<close> is built from the same arguments each time, so one that
  raises does so before the first tile is rendered.
\<close>

lemma run_x_eq:
  "run_x L a data z yS yE xs st =
     tile_loop L a data
       (map (\<lambda>x. tile_of z (yS, yE) (clamp_window (snd (snd (shape data))) (fst (a_window a)) x)) xs)
       st"
  by (induction xs arbitrary: st)
     (simp_all add: tile_of_def clamp_window_def Let_def split: sum.splits)

lemma run_y_eq:
  "run_y L a data z ys st =
     (case y_loop (fst (snd (shape data))) (snd (snd (shape data))) (a_window a) (a_overlap a)
             z ys [] of
        Inl e \<Rightarrow> Inl e
      | Inr ds \<Rightarrow> tile_loop L a data ds st)"
proof (induction ys arbitrary: st)
  case Nil
  show ?case by simp
next
  case (Cons y ys)
  show ?case
  proof (cases "range_py 0 (int (snd (snd (shape data)))) (fst (a_window a) - fst (a_overlap a))")
    case (Inl e)
    then show ?thesis by (simp add: Let_def)
  next
    case (Inr xs)
    then have aw: "axis_windows (snd (snd (shape data))) (fst (a_window a)) (fst (a_overlap a))
        = Inr (map (clamp_window (snd (snd (shape data))) (fst (a_window a))) xs)"
      by (simp add: axis_windows_def)
    show ?thesis
      using Inr
      by (simp add: Let_def Cons.IH run_x_eq y_loop_eq[of _ _ _ _ _ ys] aw x_loop_eq
                    tile_loop_append clamp_window_def comp_def
               split: sum.splits)
  qed
qed

lemma run_z_eq:
  "run_z L a data zs st =
     (case z_loop (fst (snd (shape data))) (snd (snd (shape data))) (a_window a) (a_overlap a)
             zs [] of
        Inl e \<Rightarrow> Inl e
      | Inr ds \<Rightarrow> tile_loop L a data ds st)"
proof (induction zs arbitrary: st)
  case Nil
  show ?case by simp
next
  case (Cons z zs)
  show ?case
  proof (cases "range_py 0 (int (fst (snd (shape data)))) (snd (a_window a) - snd (a_overlap a))")
    case (Inl e)
    then show ?thesis by simp
  next
    case (Inr ys)
    then have aw: "axis_windows (fst (snd (shape data))) (snd (a_window a)) (snd (a_overlap a))
        = Inr (map (clamp_window (fst (snd (shape data))) (snd (a_window a))) ys)"
      by (simp add: axis_windows_def)
    show ?thesis
    proof (cases ys)
      case Nil
      with Inr aw show ?thesis
        by (simp add: Cons.IH z_loop_eq[of _ _ _ _ zs] split: sum.splits)
    next
      case ys: (Cons y ys')
      show ?thesis
      proof (cases "axis_windows (snd (snd (shape data))) (fst (a_window a)) (fst (a_overlap a))")
        case (Inl e)
        with Inr ys show ?thesis by (simp add: run_y_eq y_loop_eq)
      next
        case xw: (Inr xws)
        with Inr aw ys show ?thesis
          by (simp add: Cons.IH run_y_eq y_loop_eq z_loop_eq[of _ _ _ _ zs] tile_loop_append
                   split: sum.splits)
      qed
    qed
  qed
qed

lemma run_z_plan:
  "(case range_py zS zE zskip of
      Inl e \<Rightarrow> Inl e
    | Inr zs \<Rightarrow> run_z L a data zs st)
   = (case plan zS zE zskip (fst (snd (shape data))) (snd (snd (shape data)))
             (a_window a) (a_overlap a) of
        Inl e \<Rightarrow> Inl e
      | Inr ds \<Rightarrow> tile_loop L a data ds st)"
  by (simp add: plan_def run_z_eq split: sum.splits)

lemma main_plan:
  "main L a data fs =
     (case resolve_zrange (lib_int L) (fst (shape data)) (a_zrange a) of
        Inl e \<Rightarrow> Inl e
      | Inr (zS, zE) \<Rightarrow>
          (case (if a_pad a then pad (lib_nan_as_int L) data (a_overlap a) else Inr data) of
             Inl e \<Rightarrow> Inl e
           | Inr data' \<Rightarrow>
               (case plan zS zE (a_zskip a) (fst (snd (shape data'))) (snd (snd (shape data')))
                       (a_window a) (a_overlap a) of
                  Inl e \<Rightarrow> Inl e
                | Inr ds \<Rightarrow>
                    (case tile_loop L a data' ds \<lparr>saved = [], csv_list = []\<rparr> of
                       Inl e \<Rightarrow> Inl e
                     | Inr st \<Rightarrow>
                         Inr (saved st,
                              if a_fillcsv a
                              then flush fs (a_output_dir a) (a_csv_filename a) (csv_list st)
                              else fs)))))"
proof -
  have "(case (case range_py zS zE (a_zskip a) of
                 Inl e \<Rightarrow> Inl e
               | Inr zs \<Rightarrow> run_z L a data' zs \<lparr>saved = [], csv_list = []\<rparr>) of
           Inl e \<Rightarrow> Inl e
         | Inr st \<Rightarrow> F st)
      = (case range_py zS zE (a_zskip a) of
           Inl e \<Rightarrow> Inl e
         | Inr zs \<Rightarrow>
             (case run_z L a data' zs \<lparr>saved = [], csv_list = []\<rparr> of
                Inl e \<Rightarrow> Inl e
              | Inr st \<Rightarrow> F st))"
    for zS zE data' and F :: "run_state \<Rightarrow> error + 'b"
    by (simp split: sum.splits)
  note flat = this[symmetric]
  show ?thesis
    unfolding main_def flat run_z_plan by (simp split: sum.splits prod.splits)
qed

lemma main_no_pad:
  assumes "resolve_zrange (lib_int L) (fst (shape data)) (a_zrange a) = Inr (zS, zE)"
    and "\<not> a_pad a" and "shape data = (S, H, W)"
    and "plan zS zE (a_zskip a) H W (a_window a) (a_overlap a) = Inr ds"
    and "tile_loop L a data ds \<lparr>saved = [], csv_list = []\<rparr> = Inr st"
  shows "main L a data fs
           = Inr (saved st,
                  if a_fillcsv a
                  then flush fs (a_output_dir a) (a_csv_filename a) (csv_list st) else fs)"
  using assms by (simp add: main_plan)


subsection \<open>Padding\<close>

lemma pad_row_nth:
  assumes "length row = W" and "c < ox + W + ox"
  shows "(replicate ox v @ row @ replicate ox v) ! c
           = (if ox \<le> c \<and> c < ox + W then row ! (c - ox) else v)"
  using assms by (auto simp: nth_append)

lemma np_pad_length: "length (np_pad W a oy ox v) = oy + length a + oy"
  by (simp add: np_pad_def Let_def)

lemma np_pad_row_length:
  assumes "\<forall>row \<in> set a. length row = W" and "row' \<in> set (np_pad W a oy ox v)"
  shows "length row' = ox + W + ox"
  using assms by (auto simp: np_pad_def Let_def)

lemma np_pad_nth:
  assumes "length a = H" and "\<forall>row \<in> set a. length row = W"
    and "r < oy + H + oy" and "c < ox + W + ox"
  shows "np_pad W a oy ox v ! r ! c
           = (if oy \<le> r \<and> r < oy + H \<and> ox \<le> c \<and> c < ox + W
              then a ! (r - oy) ! (c - ox) else v)"
proof -
  let ?edge = "replicate oy (replicate (ox + W + ox) v)"
  let ?mid = "map (\<lambda>row. replicate ox v @ row @ replicate ox v) a"
  have np: "np_pad W a oy ox v = ?edge @ ?mid @ ?edge" by (simp add: np_pad_def Let_def)
  consider (top) "r < oy" | (mid) "oy \<le> r" "r < oy + H" | (bot) "oy + H \<le> r" by linarith
  then show ?thesis
  proof cases
    case top
    with assms(4) show ?thesis by (simp add: np nth_append)
  next
    case mid
    then have i: "r - oy < length a" using assms(1) by simp
    then have len: "length (a ! (r - oy)) = W" using assms(2) by simp
    from mid i have "(?edge @ ?mid @ ?edge) ! r
        = replicate ox v @ a ! (r - oy) @ replicate ox v"
      using assms(1) by (simp add: nth_append)
    with pad_row_nth[OF len assms(4), of v] mid show ?thesis by (simp add: np)
  next
    case bot
    then have b: "\<not> r < oy" "\<not> r - oy < H" by linarith+
    from bot assms(3) have "r - oy - H < oy" by linarith
    with b assms(1) have "(?edge @ ?mid @ ?edge) ! r = replicate (ox + W + ox) v"
      by (simp add: nth_append)
    with bot assms(4) show ?thesis by (simp add: np)
  qed
qed

lemma cast_floating: "k \<noteq> Integer \<Longrightarrow> cast nan_as_int k v = Inr v"
  by (cases k) (simp_all add: cast_def)

lemma cast_Integer_Val:
  "cast nan_as_int Integer (Val q) = Inr (Val (if 0 \<le> q then of_int \<lfloor>q\<rfloor> else of_int \<lceil>q\<rceil>))"
  by (simp add: cast_def)


text \<open>
  What padding does to a volume with at least one slice, for overlaps that are not
  negative: if the median of slice 0 converts to the element type of the input, to
  \<open>v\<close>, the result has the enlarged shape and every slice of it holds the input slice
  at offset \<open>(overlap_y, overlap_x)\<close> and \<open>v\<close> everywhere else. For a floating-point
  input \<open>v\<close> is the median itself.
\<close>

lemma pad_shape_and_fill:
  assumes "wf_ndarray data" and "shape data = (S, H, W)" and "0 < S"
    and "0 \<le> fst overlap" and "0 \<le> snd overlap"
    and "cast nan_as_int (dtype data) (median (concat (vals data ! 0))) = Inr v"
  shows "\<exists>p. pad nan_as_int data overlap = Inr p
           \<and> dtype p = Float64
           \<and> shape p = (S, H + 2 * nat (snd overlap), W + 2 * nat (fst overlap))
           \<and> wf_ndarray p
           \<and> (\<forall>i < S. \<forall>r < H + 2 * nat (snd overlap). \<forall>c < W + 2 * nat (fst overlap).
                 vals p ! i ! r ! c
                   = (if nat (snd overlap) \<le> r \<and> r < nat (snd overlap) + H
                         \<and> nat (fst overlap) \<le> c \<and> c < nat (fst overlap) + W
                      then vals data ! i ! (r - nat (snd overlap)) ! (c - nat (fst overlap))
                      else v))
           \<and> (dtype data \<noteq> Integer \<longrightarrow> v = median (concat (vals data ! 0)))"
proof -
  let ?ox = "nat (fst overlap)" and ?oy = "nat (snd overlap)"
  from assms(1,2) have len: "length (vals data) = S"
    and sl: "\<forall>a \<in> set (vals data). length a = H \<and> (\<forall>row \<in> set a. length row = W)"
    by (simp_all add: wf_ndarray_def list_all_iff)
  from len assms(3) obtain first rest where vd: "vals data = first # rest"
    by (cases "vals data") simp_all
  then have v0: "vals data ! 0 = first" by simp
  let ?p = "\<lparr>dtype = Float64, shape = (S, H + 2 * ?oy, W + 2 * ?ox),
            vals = map (\<lambda>a. np_pad W a ?oy ?ox v) (vals data)\<rparr>"
  have hw: "nat (int H + 2 * snd overlap) = H + 2 * ?oy" "nat (int W + 2 * fst overlap) = W + 2 * ?ox"
    using assms(4,5) by simp_all
  have p: "pad nan_as_int data overlap = Inr ?p"
    using vd assms(2,4,5,6) hw v0 by (simp add: pad_def Let_def)
  have wf: "wf_ndarray ?p"
    using len sl
    by (auto simp: wf_ndarray_def list_all_iff np_pad_length dest!: np_pad_row_length[rotated])
  have cell: "vals ?p ! i ! r ! c
                   = (if ?oy \<le> r \<and> r < ?oy + H \<and> ?ox \<le> c \<and> c < ?ox + W
                      then vals data ! i ! (r - ?oy) ! (c - ?ox)
                      else v)"
    if "i < S" "r < H + 2 * ?oy" "c < W + 2 * ?ox" for i r c
  proof -
    from that(1) len have mem: "vals data ! i \<in> set (vals data)" by simp
    with sl have a: "length (vals data ! i) = H" "\<forall>row \<in> set (vals data ! i). length row = W"
      by simp_all
    from that(2,3) have "r < ?oy + H + ?oy" "c < ?ox + W + ?ox" by simp_all
    from np_pad_nth[OF a this, of v] that(1) len show ?thesis by simp
  qed
  have fl: "dtype data \<noteq> Integer \<longrightarrow> v = median (concat (vals data ! 0))"
    using assms(6) by (auto simp: cast_floating)
  from p wf cell fl show ?thesis
    by (intro exI[of _ ?p]) simp
qed

subsection \<open>Slice range and whole run\<close>







section \<open>Tile geometry\<close>

text \<open>
  Claim C1. Every descriptor the planner emits has the configured window size on both
  axes: \<open>x_end - x_start\<close> is the window width and \<open>y_end - y_start\<close> the window
  height, the start being \<open>min s (extent - window)\<close> for a candidate start \<open>s \<ge> 0\<close>
  and the end being start plus window. Where the window fits the axis the tile also
  lies inside the volume, so it really has that many pixels.
\<close>

theorem tile_size_exact:
  assumes "plan zS zE zskip H W window overlap = Inr ds" and "d \<in> set ds"
  shows "x_end d - x_start d = fst window \<and> y_end d - y_start d = snd window
       \<and> (\<exists>y x. 0 \<le> y \<and> 0 \<le> x
              \<and> y_start d = min y (int H - snd window) \<and> y_end d = y_start d + snd window
              \<and> x_start d = min x (int W - fst window) \<and> x_end d = x_start d + fst window)
       \<and> (fst window \<le> int W \<longrightarrow> 0 \<le> x_start d \<and> x_end d \<le> int W)
       \<and> (snd window \<le> int H \<longrightarrow> 0 \<le> y_start d \<and> y_end d \<le> int H)"
  using assms(1)
proof (cases rule: plan_InrE)
  case empty
  with assms(2) show ?thesis by simp
next
  case (tiles zs yws xws)
  from assms(2) tiles(6) obtain z yw xw where
    zyx: "z \<in> set zs" "yw \<in> set yws" "xw \<in> set xws" "d = tile_of z yw xw"
    by auto
  from axis_windows_mem[OF tiles(2) zyx(2)] obtain y where
    y: "0 \<le> y" "yw = clamp_window H (snd window) y" by blast
  from axis_windows_mem[OF tiles(3) zyx(3)] obtain x where
    x: "0 \<le> x" "xw = clamp_window W (fst window) x" by blast
  have ys: "y_start d = min y (int H - snd window)" and ye: "y_end d = y_start d + snd window"
    and xs: "x_start d = min x (int W - fst window)" and xe: "x_end d = x_start d + fst window"
    using zyx(4) y(2) x(2) by (simp_all add: tile_of_def clamp_window_def Let_def)
  from y(1) x(1) ys ye xs xe
  have "\<exists>y x. 0 \<le> y \<and> 0 \<le> x
              \<and> y_start d = min y (int H - snd window) \<and> y_end d = y_start d + snd window
              \<and> x_start d = min x (int W - fst window) \<and> x_end d = x_start d + fst window"
    by blast
  moreover from ys ye xs xe y(1) x(1)
  have "x_end d - x_start d = fst window" "y_end d - y_start d = snd window"
    "fst window \<le> int W \<longrightarrow> 0 \<le> x_start d \<and> x_end d \<le> int W"
    "snd window \<le> int H \<longrightarrow> 0 \<le> y_start d \<and> y_end d \<le> int H"
    by auto
  ultimately show ?thesis by blast
qed

theorem tile_size_exact_witness:
  "plan 0 1 1 50 50 (40, 40) (10, 10)
     = Inr [\<lparr>slice_index = 0, x_start = 0, x_end = 40, y_start = 0, y_end = 40\<rparr>,
            \<lparr>slice_index = 0, x_start = 10, x_end = 50, y_start = 0, y_end = 40\<rparr>,
            \<lparr>slice_index = 0, x_start = 0, x_end = 40, y_start = 10, y_end = 50\<rparr>,
            \<lparr>slice_index = 0, x_start = 10, x_end = 50, y_start = 10, y_end = 50\<rparr>]
   \<and> (40::int) \<le> int 50
   \<and> x_end \<lparr>slice_index = 0, x_start = 10, x_end = 50, y_start = 0, y_end = 40\<rparr>
       - x_start \<lparr>slice_index = 0, x_start = 10, x_end = 50, y_start = 0, y_end = 40\<rparr> = 40"
proof -
  have p: "plan 0 1 1 50 50 (40, 40) (10, 10)
     = Inr [\<lparr>slice_index = 0, x_start = 0, x_end = 40, y_start = 0, y_end = 40\<rparr>,
            \<lparr>slice_index = 0, x_start = 10, x_end = 50, y_start = 0, y_end = 40\<rparr>,
            \<lparr>slice_index = 0, x_start = 0, x_end = 40, y_start = 10, y_end = 50\<rparr>,
            \<lparr>slice_index = 0, x_start = 10, x_end = 50, y_start = 10, y_end = 50\<rparr>]"
    by code_simp
  from tile_size_exact[OF p, of "\<lparr>slice_index = 0, x_start = 10, x_end = 50, y_start = 0, y_end = 40\<rparr>"]
  show ?thesis using p by simp
qed

text \<open>
  Claim C2. An overlap is a width in pixels, a natural number. For every extent,
  window and overlap with \<open>window \<le> extent\<close> and \<open>overlap < window\<close>, the clamped
  windows produced along the axis cover every position of \<open>[0, extent)\<close>, each has
  the window size and lies inside the axis, there is at least one, and the last one
  ends at the extent exactly.
\<close>

theorem axis_cover:
  fixes extent ov :: nat and w :: int
  assumes "w \<le> int extent" and "int ov < w"
  shows "\<exists>ws. axis_windows extent w (int ov) = Inr ws
            \<and> (\<forall>p. 0 \<le> p \<and> p < int extent \<longrightarrow> (\<exists>sw \<in> set ws. fst sw \<le> p \<and> p < snd sw))
            \<and> (\<forall>sw \<in> set ws. snd sw - fst sw = w \<and> 0 \<le> fst sw \<and> snd sw \<le> int extent)
            \<and> ws \<noteq> [] \<and> snd (last ws) = int extent"
proof -
  let ?st = "w - int ov"
  let ?ss = "range_up 0 (int extent) ?st"
  let ?ws = "map (clamp_window extent w) ?ss"
  from assms have st: "0 < ?st" "?st \<le> w" by simp_all
  from assms have ext: "0 < int extent" by simp
  have eq: "axis_windows extent w (int ov) = Inr ?ws"
    using st(1) by (simp add: axis_windows_def range_py_def)
  have cover: "\<exists>sw \<in> set ?ws. fst sw \<le> p \<and> p < snd sw" if p: "0 \<le> p" "p < int extent" for p
  proof -
    from range_up_cover[OF st(1) p] obtain s where
      s: "s \<in> set ?ss" "s \<le> p" "p < s + ?st" by blast
    have "fst (clamp_window extent w s) \<le> p \<and> p < snd (clamp_window extent w s)"
      using s(2,3) p(2) st(2) by (auto simp: clamp_window_def Let_def min_def)
    with s(1) show ?thesis by auto
  qed
  have size: "snd sw - fst sw = w \<and> 0 \<le> fst sw \<and> snd sw \<le> int extent" if "sw \<in> set ?ws" for sw
  proof -
    from that obtain s where s: "s \<in> set ?ss" "sw = clamp_window extent w s" by auto
    from s(1) have "0 \<le> s" by (rule range_up_ge)
    with s(2) assms(1) show ?thesis by (auto simp: clamp_window_def Let_def min_def)
  qed
  have ne: "?ss \<noteq> []" using st(1) ext by (simp add: range_up_Nil)
  have "int extent - ?st \<le> last ?ss" using st(1) ext by (rule range_up_last)
  with st(2) have "clamp_window extent w (last ?ss) = (int extent - w, int extent)"
    by (simp add: clamp_window_def Let_def min_def)
  with ne have lst: "snd (last ?ws) = int extent" by (simp add: last_map)
  from eq cover size ne lst show ?thesis by auto
qed

theorem axis_cover_witness:
  "(40::int) \<le> int 100 \<and> int 10 < (40::int)
   \<and> axis_windows 100 40 (int 10) = Inr [(0, 40), (30, 70), (60, 100), (60, 100)]
   \<and> (\<exists>sw \<in> set [(0, 40), (30, 70), (60, 100), (60::int, 100::int)]. fst sw \<le> 95 \<and> 95 < snd sw)
   \<and> snd (last [(0, 40), (30, 70), (60, 100), (60::int, 100::int)]) = int 100"
proof -
  have e: "axis_windows 100 40 (int 10) = Inr [(0, 40), (30, 70), (60, 100), (60, 100)]"
    by code_simp
  from axis_cover[of 40 100 10] e show ?thesis by simp
qed

section \<open>Windows that do not fit, strides that do not advance\<close>

text \<open>
  Claim C3, as amended. A window larger than the axis does not make planning fail.
  The script has no check of the window against the extent: \<open>min s (extent - window)\<close>
  is then the negative number \<open>extent - window\<close> for every candidate \<open>s \<ge> 0\<close>. So
  whenever the skip and both strides are not zero the planner returns its descriptors
  without error; on an axis whose window exceeds the extent every descriptor starts at
  \<open>extent - window\<close> and ends at the extent; and with a non-empty slice range, positive
  strides and a non-empty plane there is at least one descriptor. On a volume of one
  slice of 2 by 2 pixels, with window 3 and overlap 1 on both axes, the planner emits
  one descriptor from -1 to 2, and the run ends without error: it saves the one pixel
  that the slice \<^verbatim>\<open>[-1:2]\<close> selects and writes the manifest.
\<close>

theorem oversize_window_no_error:
  assumes "zskip \<noteq> 0" and "fst window - fst overlap \<noteq> 0" and "snd window - snd overlap \<noteq> 0"
  shows "\<exists>ds. plan zS zE zskip H W window overlap = Inr ds
            \<and> (int W < fst window \<longrightarrow>
                 (\<forall>d \<in> set ds. x_start d = int W - fst window \<and> x_end d = int W))
            \<and> (int H < snd window \<longrightarrow>
                 (\<forall>d \<in> set ds. y_start d = int H - snd window \<and> y_end d = int H))
            \<and> (zS < zE \<and> 0 < zskip \<and> 0 < H \<and> 0 < W
                 \<and> 0 < fst window - fst overlap \<and> 0 < snd window - snd overlap \<longrightarrow> ds \<noteq> [])"
proof -
  from assms(1) obtain zs where zs: "range_py zS zE zskip = Inr zs"
    by (cases "0 < zskip") (auto simp: range_py_def)
  from axis_windows_total[OF assms(3)] obtain yws where
    yws: "axis_windows H (snd window) (snd overlap) = Inr yws" by blast
  from axis_windows_total[OF assms(2)] obtain xws where
    xws: "axis_windows W (fst window) (fst overlap) = Inr xws" by blast
  let ?ds = "concat (map (\<lambda>z. concat (map (\<lambda>yw. map (tile_of z yw) xws) yws)) zs)"
  have p: "plan zS zE zskip H W window overlap = Inr ?ds"
    by (simp add: plan_eq zs yws xws)
  have mem: "\<exists>z yw xw. yw \<in> set yws \<and> xw \<in> set xws \<and> d = tile_of z yw xw" if "d \<in> set ?ds" for d
    using that unfolding tiles_mem by blast
  have X: "x_start d = int W - fst window \<and> x_end d = int W"
    if "int W < fst window" "d \<in> set ?ds" for d
  proof -
    from mem[OF that(2)] obtain z yw xw where m: "xw \<in> set xws" "d = tile_of z yw xw" by blast
    from axis_windows_oversize[OF xws m(1) that(1)] m(2) show ?thesis
      by (simp add: tile_of_def)
  qed
  have Y: "y_start d = int H - snd window \<and> y_end d = int H"
    if "int H < snd window" "d \<in> set ?ds" for d
  proof -
    from mem[OF that(2)] obtain z yw xw where m: "yw \<in> set yws" "d = tile_of z yw xw" by blast
    from axis_windows_oversize[OF yws m(1) that(1)] m(2) show ?thesis
      by (simp add: tile_of_def)
  qed
  have N: "?ds \<noteq> []"
    if h: "zS < zE \<and> 0 < zskip \<and> 0 < H \<and> 0 < W
           \<and> 0 < fst window - fst overlap \<and> 0 < snd window - snd overlap"
  proof -
    from h zs have "zs \<noteq> []" by (auto simp: range_py_def range_up_Nil)
    moreover from h yws have "yws \<noteq> []" by (auto simp: axis_windows_pos range_up_Nil)
    moreover from h xws have "xws \<noteq> []" by (auto simp: axis_windows_pos range_up_Nil)
    ultimately show ?thesis
      by (cases zs; cases yws; cases xws) simp_all
  qed
  from p X Y N show ?thesis by blast
qed

theorem oversize_window_no_error_witness:
  "(1::int) \<noteq> 0 \<and> fst (15::int, 15::int) - fst (5::int, 5::int) \<noteq> 0
   \<and> snd (15::int, 15::int) - snd (5::int, 5::int) \<noteq> 0 \<and> int 10 < fst (15::int, 15::int)
   \<and> (\<exists>ds. plan 0 1 1 10 10 (15, 15) (5, 5) = Inr ds
          \<and> (\<forall>d \<in> set ds. x_start d = - 5 \<and> x_end d = 10)
          \<and> (\<forall>d \<in> set ds. y_start d = - 5 \<and> y_end d = 10)
          \<and> ds \<noteq> [])"
  using oversize_window_no_error[of 1 "(15, 15)" "(5, 5)" 0 1 10 10] by simp

theorem oversize_window_counterexample:
  "int 2 < (3::int)
   \<and> plan 0 1 1 2 2 (3, 3) (1, 1)
       = Inr [\<lparr>slice_index = 0, x_start = - 1, x_end = 2, y_start = - 1, y_end = 2\<rparr>]
   \<and> (case main ok_libs
             \<lparr>a_input_file_path = ''vol.h5'', a_output_dir = ''out'', a_pad = False,
              a_window = (3, 3), a_overlap = (1, 1), a_zrange = ''0-1'', a_zskip = 1,
              a_prefix = ''data'', a_fillcsv = True, a_csv_filename = ''manifest.csv'',
              a_transpose = None\<rparr>
             \<lparr>dtype = Integer, shape = (1, 2, 2), vals = [[[Val 1, Val 2], [Val 3, Val 4]]]\<rparr>
             Map.empty of
         Inl e \<Rightarrow> None
       | Inr (imgs, fs') \<Rightarrow> Some (imgs, fs' ''out/manifest.csv''))
     = Some ([(''data_0_-1x2x-1x2.png'', \<lparr>im_dtype = Integer, im_rows = [[Val 4]]\<rparr>)],
             Some [header_row,
                   [Number 0, Text ''data_0_-1x2x-1x2.png'', Text ''data'', Number 0, Number (- 1),
                    Number 2, Number (- 1), Number 2, Text ''vol.h5'', Blank]])"
  by code_simp

text \<open>
  Claim C4, as amended. A stride \<open>window - overlap\<close> of zero makes planning fail with
  \<^verbatim>\<open>ValueError\<close>, raised by \<^verbatim>\<open>range\<close>, once the loop of that axis is entered: for Y when
  a slice is visited, for X when in addition the Y loop has an iteration. A negative
  stride is no error: the \<^verbatim>\<open>range\<close> is empty, planning ends at once and no tile is
  emitted. The planner never loops forever, all its loops being over finite ranges.
  The claim asks for an error on every non-positive stride; with window 10 and overlap
  20 the planner returns the empty sequence, and a run with window 1 and overlap 2 ends
  without error, having saved no image and written a manifest of the header row alone.
\<close>

theorem nonpositive_stride:
  assumes "0 < zskip"
  shows "(zS < zE \<and> snd window - snd overlap = 0
            \<longrightarrow> plan zS zE zskip H W window overlap = Inl ValueError)
       \<and> (zS < zE \<and> fst window - fst overlap = 0 \<and> 0 < snd window - snd overlap \<and> 0 < H
            \<longrightarrow> plan zS zE zskip H W window overlap = Inl ValueError)
       \<and> (snd window - snd overlap < 0
            \<longrightarrow> plan zS zE zskip H W window overlap = Inr [])
       \<and> (fst window - fst overlap < 0 \<and> snd window - snd overlap \<noteq> 0
            \<longrightarrow> plan zS zE zskip H W window overlap = Inr [])"
proof -
  have zs: "range_py zS zE zskip = Inr (range_up zS zE zskip)"
    using assms by (rule range_py_pos)
  have ne: "range_up zS zE zskip \<noteq> []" if "zS < zE"
    using that assms by (simp add: range_up_Nil)
  have 1: "plan zS zE zskip H W window overlap = Inl ValueError"
    if "zS < zE \<and> snd window - snd overlap = 0"
    using that ne by (simp add: plan_eq zs axis_windows_zero)
  have 2: "plan zS zE zskip H W window overlap = Inl ValueError"
    if "zS < zE \<and> fst window - fst overlap = 0 \<and> 0 < snd window - snd overlap \<and> 0 < H"
    using that ne by (simp add: plan_eq zs axis_windows_zero axis_windows_pos range_up_Nil)
  have 3: "plan zS zE zskip H W window overlap = Inr []"
    if "snd window - snd overlap < 0"
    using that by (simp add: plan_eq zs axis_windows_neg)
  have 4: "plan zS zE zskip H W window overlap = Inr []"
    if h: "fst window - fst overlap < 0 \<and> snd window - snd overlap \<noteq> 0"
  proof -
    from h axis_windows_total obtain yws where
      "axis_windows H (snd window) (snd overlap) = Inr yws" by blast
    with h show ?thesis by (simp add: plan_eq zs axis_windows_neg)
  qed
  from 1 2 3 4 show ?thesis by blast
qed

theorem nonpositive_stride_witness:
  "(0::int) < 1 \<and> (0::int) < 1 \<and> (0::nat) < 100
   \<and> snd (10::int, 10::int) - snd (10::int, 10::int) = 0
   \<and> fst (10::int, 10::int) - fst (10::int, 20::int) = 0 \<and> 0 < snd (10::int, 30::int) - snd (10::int, 20::int)
   \<and> snd (10::int, 10::int) - snd (20::int, 20::int) < 0
   \<and> fst (10::int, 10::int) - fst (20::int, 5::int) < 0 \<and> snd (10::int, 10::int) - snd (20::int, 5::int) \<noteq> 0
   \<and> plan 0 1 1 100 100 (10, 10) (10, 10) = Inl ValueError
   \<and> plan 0 1 1 100 100 (10, 30) (10, 20) = Inl ValueError
   \<and> plan 0 1 1 100 100 (10, 10) (20, 20) = Inr []
   \<and> plan 0 1 1 100 100 (10, 10) (20, 5) = Inr []"
  using nonpositive_stride[of 1 0 1 "(10, 10)" "(10, 10)" 100 100]
        nonpositive_stride[of 1 0 1 "(10, 30)" "(10, 20)" 100 100]
        nonpositive_stride[of 1 0 1 "(10, 10)" "(20, 20)" 100 100]
        nonpositive_stride[of 1 0 1 "(10, 10)" "(20, 5)" 100 100]
  by simp

theorem nonpositive_stride_counterexample:
  "fst (10::int, 10::int) - fst (20::int, 20::int) \<le> 0
   \<and> plan 0 1 1 100 100 (10, 10) (20, 20) = Inr []
   \<and> (case main ok_libs
             \<lparr>a_input_file_path = ''vol.h5'', a_output_dir = ''out'', a_pad = False,
              a_window = (1, 1), a_overlap = (2, 2), a_zrange = ''0-1'', a_zskip = 1,
              a_prefix = ''data'', a_fillcsv = True, a_csv_filename = ''manifest.csv'',
              a_transpose = None\<rparr>
             \<lparr>dtype = Integer, shape = (1, 2, 2), vals = [[[Val 1, Val 2], [Val 3, Val 4]]]\<rparr>
             Map.empty of
         Inl e \<Rightarrow> None
       | Inr (imgs, fs') \<Rightarrow> Some (imgs, fs' ''out/manifest.csv''))
     = Some ([], Some [header_row])"
  by code_simp

section \<open>Padding\<close>

text \<open>
  Claim C5. Padding is to enlarge the volume by the overlap on each side and to fill
  the border with the median of slice 0. For a floating-point volume the script does
  so (\<open>pad_shape_and_fill\<close>). For an integer volume it does not: \<^verbatim>\<open>np.pad\<close> converts
  the median to the element type of the slice it pads, which truncates it. An integer
  slice 0 holding 1 and 2 has median 3/2, and with overlap 1 along X the script pads
  it to 1, 1, 2, 1; the same slice in floating point is padded to 3/2, 1, 2, 3/2.
\<close>

theorem pad_integer_median_truncated:
  "pad nan_as_int \<lparr>dtype = Integer, shape = (1, 1, 2), vals = [[[Val 1, Val 2]]]\<rparr> (1, 0)
     = Inr \<lparr>dtype = Float64, shape = (1, 1, 4), vals = [[[Val 1, Val 1, Val 2, Val 1]]]\<rparr>
   \<and> median (concat (vals \<lparr>dtype = Integer, shape = (1, 1, 2), vals = [[[Val 1, Val 2]]]\<rparr> ! 0))
       = Val (3 / 2)
   \<and> Val 1 \<noteq> Val (3 / 2)
   \<and> pad nan_as_int \<lparr>dtype = Float64, shape = (1, 1, 2), vals = [[[Val 1, Val 2]]]\<rparr> (1, 0)
     = Inr \<lparr>dtype = Float64, shape = (1, 1, 4),
            vals = [[[Val (3 / 2), Val 1, Val 2, Val (3 / 2)]]]\<rparr>"
proof -
  have m: "median [Val 1, Val 2] = Val (3 / 2)" by code_simp
  have fl: "\<lfloor>3 / 2 :: rat\<rfloor> = 1" by code_simp
  have c: "cast nan_as_int Integer (Val (3 / 2)) = Inr (Val 1)"
    by (simp add: cast_Integer_Val fl)
  have 1: "pad nan_as_int \<lparr>dtype = Integer, shape = (1, 1, 2), vals = [[[Val 1, Val 2]]]\<rparr> (1, 0)
     = Inr \<lparr>dtype = Float64, shape = (1, 1, 4), vals = [[[Val 1, Val 1, Val 2, Val 1]]]\<rparr>"
    by (simp add: pad_def Let_def m c np_pad_def)
  have 2: "pad nan_as_int \<lparr>dtype = Float64, shape = (1, 1, 2), vals = [[[Val 1, Val 2]]]\<rparr> (1, 0)
     = Inr \<lparr>dtype = Float64, shape = (1, 1, 4),
            vals = [[[Val (3 / 2), Val 1, Val 2, Val (3 / 2)]]]\<rparr>"
    by (simp add: pad_def Let_def m cast_floating np_pad_def)
  from 1 2 m show ?thesis by simp
qed

section \<open>Order of enumeration\<close>

text \<open>
  Claim C6, as amended. With a skip of at least 1 the descriptors are emitted in the
  order of the loop nest over the candidate starts: the emitted sequence is the image,
  under the clamping of the loop body, of a sequence of candidates (z, y, x) that is
  strictly ascending in the lexicographic order. In the emitted sequence the slice
  index never decreases and within a slice the Y start never decreases; and when the
  clamped Y windows are pairwise distinct the whole sequence is ascending by slice
  index, then Y start, then X start. The planner is a function of its inputs and
  reads nothing else, so the same inputs give the same sequence. The claim asks for
  the order by slice, Y start and X start on every valid input. With extent 100,
  window 40 and overlap 10 on both axes the Y candidates 60 and 90 both clamp to 60,
  and the twelfth descriptor starts at (y, x) = (60, 60), the thirteenth at (60, 0).
\<close>

theorem plan_order:
  assumes "plan zS zE zskip H W window overlap = Inr ds" and "0 < zskip"
  shows "(\<exists>cs. ds = map (tile_at H W window) cs \<and> sorted_wrt candidate_before cs
            \<and> (\<forall>c \<in> set cs. zS \<le> fst c \<and> fst c < zE \<and> 0 \<le> fst (snd c) \<and> 0 \<le> snd (snd c)))
       \<and> sorted_wrt emitted_before ds
       \<and> ((\<exists>yws. axis_windows H (snd window) (snd overlap) = Inr yws \<and> distinct yws)
            \<longrightarrow> sorted_wrt start_order ds)"
proof -
  from assms obtain cs ys where
    cs: "ds = map (tile_at H W window) cs" "sorted_wrt candidate_before cs"
      "\<forall>c \<in> set cs. zS \<le> fst c \<and> fst c < zE \<and> 0 \<le> fst (snd c) \<and> 0 \<le> snd (snd c)"
    and ys: "\<forall>c \<in> set cs. fst (snd c) \<in> set ys"
      "cs \<noteq> [] \<longrightarrow>
         axis_windows H (snd window) (snd overlap) = Inr (map (clamp_window H (snd window)) ys)"
    by (rule plan_candidates)
  from cs(2) have "sorted_wrt (\<lambda>c c'. emitted_before (tile_at H W window c) (tile_at H W window c')) cs"
    by (rule sorted_wrt_mono_rel[rotated]) (simp add: tile_at_mono)
  with cs(1) have srt: "sorted_wrt emitted_before ds" by (simp add: sorted_wrt_map)
  have lex: "sorted_wrt start_order ds"
    if "\<exists>yws. axis_windows H (snd window) (snd overlap) = Inr yws \<and> distinct yws"
  proof (cases "cs = []")
    case True
    with cs(1) show ?thesis by simp
  next
    case False
    with ys(2) that have d: "distinct (map (clamp_window H (snd window)) ys)" by auto
    have "start_order (tile_at H W window c) (tile_at H W window c')"
      if "c \<in> set cs" "c' \<in> set cs" "candidate_before c c'" for c c'
    proof (rule tile_at_start_order[OF that(3)], rule impI)
      assume "fst (snd c) < fst (snd c')"
      with d ys(1) that(1,2)
      show "fst (clamp_window H (snd window) (fst (snd c)))
              < fst (clamp_window H (snd window) (fst (snd c')))"
        by (auto intro: clamp_window_strict)
    qed
    with cs(2) have "sorted_wrt (\<lambda>c c'. start_order (tile_at H W window c) (tile_at H W window c')) cs"
      by (rule sorted_wrt_mono_rel[rotated])
    with cs(1) show ?thesis by (simp add: sorted_wrt_map)
  qed
  from cs srt lex show ?thesis by blast
qed

theorem plan_order_witness:
  "(0::int) < 1
   \<and> plan 0 2 1 50 50 (40, 40) (10, 10)
       = Inr (map (tile_at 50 50 (40, 40))
               [(0, 0, 0), (0, 0, 30), (0, 30, 0), (0, 30, 30),
                (1, 0, 0), (1, 0, 30), (1, 30, 0), (1, 30, 30)])
   \<and> axis_windows 50 (snd (40::int, 40::int)) (snd (10::int, 10::int)) = Inr [(0, 40), (10, 50)]
   \<and> distinct [(0::int, 40::int), (10, 50)]
   \<and> sorted_wrt emitted_before
       (map (tile_at 50 50 (40, 40))
               [(0, 0, 0), (0, 0, 30), (0, 30, 0), (0, 30, 30),
                (1, 0, 0), (1, 0, 30), (1, 30, 0), (1, 30, 30)])
   \<and> sorted_wrt start_order
       (map (tile_at 50 50 (40, 40))
               [(0, 0, 0), (0, 0, 30), (0, 30, 0), (0, 30, 30),
                (1, 0, 0), (1, 0, 30), (1, 30, 0), (1, 30, 30)])"
proof -
  have p: "plan 0 2 1 50 50 (40, 40) (10, 10)
       = Inr (map (tile_at 50 50 (40, 40))
               [(0, 0, 0), (0, 0, 30), (0, 30, 0), (0, 30, 30),
                (1, 0, 0), (1, 0, 30), (1, 30, 0), (1, 30, 30)])"
    by code_simp
  have k: "(0::int) < 1" by simp
  have a: "axis_windows 50 (snd (40::int, 40::int)) (snd (10::int, 10::int)) = Inr [(0, 40), (10, 50)]"
    by code_simp
  have d: "distinct [(0::int, 40::int), (10, 50)]" by simp
  from a d have "\<exists>yws. axis_windows 50 (snd (40::int, 40::int)) (snd (10::int, 10::int)) = Inr yws
      \<and> distinct yws" by blast
  with plan_order[OF p k] p k a d show ?thesis by blast
qed

theorem plan_order_counterexample:
  "plan 0 1 1 100 100 (40, 40) (10, 10)
     = Inr [\<lparr>slice_index = 0, x_start = 0, x_end = 40, y_start = 0, y_end = 40\<rparr>,
            \<lparr>slice_index = 0, x_start = 30, x_end = 70, y_start = 0, y_end = 40\<rparr>,
            \<lparr>slice_index = 0, x_start = 60, x_end = 100, y_start = 0, y_end = 40\<rparr>,
            \<lparr>slice_index = 0, x_start = 60, x_end = 100, y_start = 0, y_end = 40\<rparr>,
            \<lparr>slice_index = 0, x_start = 0, x_end = 40, y_start = 30, y_end = 70\<rparr>,
            \<lparr>slice_index = 0, x_start = 30, x_end = 70, y_start = 30, y_end = 70\<rparr>,
            \<lparr>slice_index = 0, x_start = 60, x_end = 100, y_start = 30, y_end = 70\<rparr>,
            \<lparr>slice_index = 0, x_start = 60, x_end = 100, y_start = 30, y_end = 70\<rparr>,
            \<lparr>slice_index = 0, x_start = 0, x_end = 40, y_start = 60, y_end = 100\<rparr>,
            \<lparr>slice_index = 0, x_start = 30, x_end = 70, y_start = 60, y_end = 100\<rparr>,
            \<lparr>slice_index = 0, x_start = 60, x_end = 100, y_start = 60, y_end = 100\<rparr>,
            \<lparr>slice_index = 0, x_start = 60, x_end = 100, y_start = 60, y_end = 100\<rparr>,
            \<lparr>slice_index = 0, x_start = 0, x_end = 40, y_start = 60, y_end = 100\<rparr>,
            \<lparr>slice_index = 0, x_start = 30, x_end = 70, y_start = 60, y_end = 100\<rparr>,
            \<lparr>slice_index = 0, x_start = 60, x_end = 100, y_start = 60, y_end = 100\<rparr>,
            \<lparr>slice_index = 0, x_start = 60, x_end = 100, y_start = 60, y_end = 100\<rparr>]
   \<and> [\<lparr>slice_index = 0, x_start = 0, x_end = 40, y_start = 0, y_end = 40\<rparr>,
            \<lparr>slice_index = 0, x_start = 30, x_end = 70, y_start = 0, y_end = 40\<rparr>,
            \<lparr>slice_index = 0, x_start = 60, x_end = 100, y_start = 0, y_end = 40\<rparr>,
            \<lparr>slice_index = 0, x_start = 60, x_end = 100, y_start = 0, y_end = 40\<rparr>,
            \<lparr>slice_index = 0, x_start = 0, x_end = 40, y_start = 30, y_end = 70\<rparr>,
            \<lparr>slice_index = 0, x_start = 30, x_end = 70, y_start = 30, y_end = 70\<rparr>,
            \<lparr>slice_index = 0, x_start = 60, x_end = 100, y_start = 30, y_end = 70\<rparr>,
            \<lparr>slice_index = 0, x_start = 60, x_end = 100, y_start = 30, y_end = 70\<rparr>,
            \<lparr>slice_index = 0, x_start = 0, x_end = 40, y_start = 60, y_end = 100\<rparr>,
            \<lparr>slice_index = 0, x_start = 30, x_end = 70, y_start = 60, y_end = 100\<rparr>,
            \<lparr>slice_index = 0, x_start = 60, x_end = 100, y_start = 60, y_end = 100\<rparr>,
            \<lparr>slice_index = 0, x_start = 60, x_end = 100, y_start = 60, y_end = 100\<rparr>,
            \<lparr>slice_index = 0, x_start = 0, x_end = 40, y_start = 60, y_end = 100\<rparr>,
            \<lparr>slice_index = 0, x_start = 30, x_end = 70, y_start = 60, y_end = 100\<rparr>,
            \<lparr>slice_index = 0, x_start = 60, x_end = 100, y_start = 60, y_end = 100\<rparr>,
            \<lparr>slice_index = 0, x_start = 60, x_end = 100, y_start = 60, y_end = 100\<rparr>] ! 11
       = \<lparr>slice_index = 0, x_start = 60, x_end = 100, y_start = 60, y_end = 100\<rparr>
   \<and> [\<lparr>slice_index = 0, x_start = 0, x_end = 40, y_start = 0, y_end = 40\<rparr>,
            \<lparr>slice_index = 0, x_start = 30, x_end = 70, y_start = 0, y_end = 40\<rparr>,
            \<lparr>slice_index = 0, x_start = 60, x_end = 100, y_start = 0, y_end = 40\<rparr>,
            \<lparr>slice_index = 0, x_start = 60, x_end = 100, y_start = 0, y_end = 40\<rparr>,
            \<lparr>slice_index = 0, x_start = 0, x_end = 40, y_start = 30, y_end = 70\<rparr>,
            \<lparr>slice_index = 0, x_start = 30, x_end = 70, y_start = 30, y_end = 70\<rparr>,
            \<lparr>slice_index = 0, x_start = 60, x_end = 100, y_start = 30, y_end = 70\<rparr>,
            \<lparr>slice_index = 0, x_start = 60, x_end = 100, y_start = 30, y_end = 70\<rparr>,
            \<lparr>slice_index = 0, x_start = 0, x_end = 40, y_start = 60, y_end = 100\<rparr>,
            \<lparr>slice_index = 0, x_start = 30, x_end = 70, y_start = 60, y_end = 100\<rparr>,
            \<lparr>slice_index = 0, x_start = 60, x_end = 100, y_start = 60, y_end = 100\<rparr>,
            \<lparr>slice_index = 0, x_start = 60, x_end = 100, y_start = 60, y_end = 100\<rparr>,
            \<lparr>slice_index = 0, x_start = 0, x_end = 40, y_start = 60, y_end = 100\<rparr>,
            \<lparr>slice_index = 0, x_start = 30, x_end = 70, y_start = 60, y_end = 100\<rparr>,
            \<lparr>slice_index = 0, x_start = 60, x_end = 100, y_start = 60, y_end = 100\<rparr>,
            \<lparr>slice_index = 0, x_start = 60, x_end = 100, y_start = 60, y_end = 100\<rparr>] ! 12
       = \<lparr>slice_index = 0, x_start = 0, x_end = 40, y_start = 60, y_end = 100\<rparr>
   \<and> \<not> start_order \<lparr>slice_index = 0, x_start = 60, x_end = 100, y_start = 60, y_end = 100\<rparr>
                     \<lparr>slice_index = 0, x_start = 0, x_end = 40, y_start = 60, y_end = 100\<rparr>"
  by code_simp

section \<open>Slice selection\<close>




section \<open>Writing the manifest\<close>

text \<open>
  Claim C8. Where no file exists at the target path, the flush writes one header row
  followed by one body row per recorded tile; where a file exists, it appends the body
  rows to it and writes no header. The first cell of the body rows counts from 0 in
  steps of 1, the other cells are the recorded fields, and no body row is the header
  row. No other path of the file system changes.
\<close>

theorem flush_rows:
  "(fs (op_join output csvfile) = None \<longrightarrow>
      flush fs output csvfile rs (op_join output csvfile) = Some (header_row # body_rows rs))
   \<and> (\<forall>old. fs (op_join output csvfile) = Some old \<longrightarrow>
      flush fs output csvfile rs (op_join output csvfile) = Some (old @ body_rows rs))
   \<and> (\<forall>p. p \<noteq> op_join output csvfile \<longrightarrow> flush fs output csvfile rs p = fs p)
   \<and> length (body_rows rs) = length rs
   \<and> (\<forall>i < length rs. body_rows rs ! i = Number (int i) # record_cells (rs ! i))
   \<and> header_row \<notin> set (body_rows rs)
   \<and> header_row = map Text [''id'', ''filename'', ''prefix'', ''slice'', ''xstart'', ''xend'',
                            ''ystart'', ''yend'', ''#source'', ''#transpose'']"
proof -
  have 1: "fs (op_join output csvfile) = None \<longrightarrow>
      flush fs output csvfile rs (op_join output csvfile) = Some (header_row # body_rows rs)"
    by (simp add: flush_def Let_def)
  have 2: "\<forall>old. fs (op_join output csvfile) = Some old \<longrightarrow>
      flush fs output csvfile rs (op_join output csvfile) = Some (old @ body_rows rs)"
    by (simp add: flush_def Let_def)
  have 3: "\<forall>p. p \<noteq> op_join output csvfile \<longrightarrow> flush fs output csvfile rs p = fs p"
    by (simp add: flush_def Let_def split: option.splits)
  have 4: "header_row = map Text [''id'', ''filename'', ''prefix'', ''slice'', ''xstart'', ''xend'',
                            ''ystart'', ''yend'', ''#source'', ''#transpose'']"
    by (simp add: header_row_def columns_def)
  from 1 2 3 4 body_rows_length body_rows_nth header_not_body show ?thesis by blast
qed

theorem flush_rows_witness:
  "Map.empty (op_join ''out'' ''manifest.csv'') = (None :: cell list list option)
   \<and> flush Map.empty ''out'' ''manifest.csv''
        [record_of ''data'' ''vol.h5'' None
           \<lparr>slice_index = 0, x_start = 0, x_end = 40, y_start = 0, y_end = 40\<rparr>,
         record_of ''data'' ''vol.h5'' None
           \<lparr>slice_index = 0, x_start = 10, x_end = 50, y_start = 0, y_end = 40\<rparr>]
        ''out/manifest.csv''
      = Some [header_row,
              [Number 0, Text ''data_0_0x40x0x40.png'', Text ''data'', Number 0, Number 0,
               Number 40, Number 0, Number 40, Text ''vol.h5'', Blank],
              [Number 1, Text ''data_0_10x50x0x40.png'', Text ''data'', Number 0, Number 10,
               Number 50, Number 0, Number 40, Text ''vol.h5'', Blank]]
   \<and> flush [''out/manifest.csv'' \<mapsto> [header_row, [Number 0, Text ''old.png'']]]
        ''out'' ''manifest.csv''
        [record_of ''data'' ''vol.h5'' None
           \<lparr>slice_index = 0, x_start = 0, x_end = 40, y_start = 0, y_end = 40\<rparr>]
        ''out/manifest.csv''
      = Some [header_row, [Number 0, Text ''old.png''],
              [Number 0, Text ''data_0_0x40x0x40.png'', Text ''data'', Number 0, Number 0,
               Number 40, Number 0, Number 40, Text ''vol.h5'', Blank]]"
proof -
  have j: "op_join ''out'' ''manifest.csv'' = ''out/manifest.csv''"
    by (simp add: op_join_def)
  have f1: "fname_of ''data'' \<lparr>slice_index = 0, x_start = 0, x_end = 40, y_start = 0, y_end = 40\<rparr>
      = ''data_0_0x40x0x40.png''" by code_simp
  have f2: "fname_of ''data'' \<lparr>slice_index = 0, x_start = 10, x_end = 50, y_start = 0, y_end = 40\<rparr>
      = ''data_0_10x50x0x40.png''" by code_simp
  have b2: "body_rows [record_of ''data'' ''vol.h5'' None
           \<lparr>slice_index = 0, x_start = 0, x_end = 40, y_start = 0, y_end = 40\<rparr>,
         record_of ''data'' ''vol.h5'' None
           \<lparr>slice_index = 0, x_start = 10, x_end = 50, y_start = 0, y_end = 40\<rparr>]
     = [[Number 0, Text ''data_0_0x40x0x40.png'', Text ''data'', Number 0, Number 0,
               Number 40, Number 0, Number 40, Text ''vol.h5'', Blank],
              [Number 1, Text ''data_0_10x50x0x40.png'', Text ''data'', Number 0, Number 10,
               Number 50, Number 0, Number 40, Text ''vol.h5'', Blank]]"
    by (simp add: body_rows_def body_row_def record_cells_def record_of_def f1 f2)
  have b1: "body_rows [record_of ''data'' ''vol.h5'' None
           \<lparr>slice_index = 0, x_start = 0, x_end = 40, y_start = 0, y_end = 40\<rparr>]
     = [[Number 0, Text ''data_0_0x40x0x40.png'', Text ''data'', Number 0, Number 0,
               Number 40, Number 0, Number 40, Text ''vol.h5'', Blank]]"
    by (simp add: body_rows_def body_row_def record_cells_def record_of_def f1)
  from flush_rows[of Map.empty "''out''" "''manifest.csv''"
        "[record_of ''data'' ''vol.h5'' None
           \<lparr>slice_index = 0, x_start = 0, x_end = 40, y_start = 0, y_end = 40\<rparr>,
         record_of ''data'' ''vol.h5'' None
           \<lparr>slice_index = 0, x_start = 10, x_end = 50, y_start = 0, y_end = 40\<rparr>]"]
       flush_rows[of "[''out/manifest.csv'' \<mapsto> [header_row, [Number 0, Text ''old.png'']]]"
        "''out''" "''manifest.csv''"
        "[record_of ''data'' ''vol.h5'' None
           \<lparr>slice_index = 0, x_start = 0, x_end = 40, y_start = 0, y_end = 40\<rparr>]"]
  show ?thesis unfolding j b1 b2 by simp
qed

section \<open>Duplicate tiles\<close>

text \<open>
  Claim C9. With extent 100, window 40 and overlap 10 the candidate starts 0, 30, 60,
  90 clamp to 0, 30, 60, 60, and nothing suppresses the repeated window. A run over
  one slice of 100 by 100 pixels saves 16 images, of which the third and the fourth
  are the same image under the same file name, and writes 16 manifest rows, of which
  the third and the fourth differ in their row id only.
\<close>


theorem duplicate_clamped_tile:
  "axis_windows 100 40 10 = Inr [(0, 40), (30, 70), (60, 100), (60, 100)]
   \<and> (\<exists>imgs fs'.
         main (ok_libs\<lparr>lib_img_as_ubyte := conv\<rparr>)
           \<lparr>a_input_file_path = ''vol.h5'', a_output_dir = ''out'', a_pad = False,
            a_window = (40, 40), a_overlap = (10, 10), a_zrange = ''0-1'', a_zskip = 1,
            a_prefix = ''data'', a_fillcsv = True, a_csv_filename = ''manifest.csv'',
            a_transpose = None\<rparr>
           \<lparr>dtype = Integer, shape = (1, 100, 100), vals = [replicate 100 (replicate 100 (Val 0))]\<rparr>
           Map.empty
         = Inr (imgs, fs')
       \<and> length imgs = 16
       \<and> imgs ! 2 = imgs ! 3
       \<and> fst (imgs ! 2) = ''data_0_60x100x0x40.png''
       \<and> (\<exists>rows. fs' ''out/manifest.csv'' = Some rows
              \<and> length rows = 17
              \<and> rows ! 3 = [Number 2, Text ''data_0_60x100x0x40.png'', Text ''data'', Number 0,
                            Number 60, Number 100, Number 0, Number 40, Text ''vol.h5'', Blank]
              \<and> rows ! 4 = [Number 3, Text ''data_0_60x100x0x40.png'', Text ''data'', Number 0,
                            Number 60, Number 100, Number 0, Number 40, Text ''vol.h5'', Blank]))"
proof -
  define A where "A = \<lparr>a_input_file_path = ''vol.h5'', a_output_dir = ''out'', a_pad = False,
            a_window = (40, 40), a_overlap = (10, 10), a_zrange = ''0-1'', a_zskip = 1,
            a_prefix = ''data'', a_fillcsv = True, a_csv_filename = ''manifest.csv'',
            a_transpose = None\<rparr>"
  define D where "D = \<lparr>dtype = Integer, shape = (1, 100, 100),
            vals = [replicate 100 (replicate 100 (Val 0))]\<rparr>"
  define d60 where "d60 = \<lparr>slice_index = 0, x_start = 60, x_end = 100, y_start = 0, y_end = 40\<rparr>"
  define ds where "ds = map (tile_at 100 100 (40, 40))
      [(0, 0, 0), (0, 0, 30), (0, 0, 60), (0, 0, 90),
       (0, 30, 0), (0, 30, 30), (0, 30, 60), (0, 30, 90),
       (0, 60, 0), (0, 60, 30), (0, 60, 60), (0, 60, 90),
       (0, 90, 0), (0, 90, 30), (0, 90, 60), (0, 90, 90)]"
  have ax: "axis_windows 100 40 10 = Inr [(0, 40), (30, 70), (60, 100), (60, 100)]"
    by code_simp
  have pl: "plan 0 1 1 100 100 (40, 40) (10, 10) = Inr ds"
    unfolding ds_def by code_simp
  have len: "length ds = 16" by (simp add: ds_def)
  have d2: "ds ! 2 = d60" and d3: "ds ! 3 = d60"
    by (simp_all add: ds_def d60_def tile_at_def tile_of_def clamp_window_def Let_def)
  have sl: "\<forall>d \<in> set ds. 0 \<le> slice_index d \<and> slice_index d < int (length (vals D))"
    by (simp add: ds_def D_def tile_at_def tile_of_def)
  have fn: "fname_of ''data'' d60 = ''data_0_60x100x0x40.png''"
    unfolding d60_def by code_simp
  define L where "L = ok_libs\<lparr>lib_img_as_ubyte := conv\<rparr>"
  have rz: "resolve_zrange (lib_int L) (fst (shape D)) (a_zrange A) = Inr (0, 1)"
    by (simp add: L_def ok_libs_def D_def A_def resolve_zrange_def decimal_def is_digit_def)
  have nr: "lib_np_float L \<noteq> Removed" by (simp add: L_def ok_libs_def)
  have sa: "\<forall>path im. lib_imsave L path im = Inr ()" by (simp add: L_def ok_libs_def)
  have "dtype D = Integer" by (simp add: D_def)
  from tile_loop_Integer[OF this nr sa sl, of A "\<lparr>saved = [], csv_list = []\<rparr>"] obtain st where
    tl: "tile_loop L A D ds \<lparr>saved = [], csv_list = []\<rparr> = Inr st"
    and sv: "saved st = saved \<lparr>saved = [], csv_list = []\<rparr>
                @ map (\<lambda>d. (fname_of (a_prefix A) d, projr (roi_of D d))) ds"
    by blast
  have ap: "a_prefix A = ''data''" "a_input_file_path A = ''vol.h5''" "a_transpose A = None"
    "a_fillcsv A" "a_output_dir A = ''out''" "a_csv_filename A = ''manifest.csv''"
    by (simp_all add: A_def)
  from tile_loop_Inr[OF tl] have csv: "csv_list st = map (record_of ''data'' ''vol.h5'' None) ds"
    by (simp add: ap)
  from sv have sv': "saved st = map (\<lambda>d. (fname_of ''data'' d, projr (roi_of D d))) ds"
    by (simp add: ap)
  have np: "\<not> a_pad A" and sh: "shape D = (1, 100, 100)" and win: "a_zskip A = 1"
    "a_window A = (40, 40)" "a_overlap A = (10, 10)"
    by (simp_all add: A_def D_def)
  have pl': "plan 0 1 (a_zskip A) 100 100 (a_window A) (a_overlap A) = Inr ds"
    using pl by (simp add: win)
  have m: "main L A D Map.empty
      = Inr (saved st, flush Map.empty ''out'' ''manifest.csv'' (csv_list st))"
    using main_no_pad[OF rz np sh pl' tl, of Map.empty] by (simp add: ap)
  have i1: "length (saved st) = 16" using sv' len by simp
  have i2: "saved st ! 2 = saved st ! 3" using sv' len d2 d3 by simp
  have i3: "fst (saved st ! 2) = ''data_0_60x100x0x40.png''" using sv' len d2 fn by simp
  let ?rows = "header_row # body_rows (csv_list st)"
  have f: "flush Map.empty ''out'' ''manifest.csv'' (csv_list st) ''out/manifest.csv'' = Some ?rows"
    by (simp add: flush_def op_join_def Let_def)
  have cl: "length (csv_list st) = 16" using csv len by simp
  have r0: "length ?rows = 17" using cl by (simp add: body_rows_length)
  have cells: "record_cells (record_of ''data'' ''vol.h5'' None d60)
      = [Text ''data_0_60x100x0x40.png'', Text ''data'', Number 0,
         Number 60, Number 100, Number 0, Number 40, Text ''vol.h5'', Blank]"
    by (simp add: record_cells_def record_of_def fn) (simp add: d60_def)
  have c2: "csv_list st ! 2 = record_of ''data'' ''vol.h5'' None d60"
    and c3: "csv_list st ! 3 = record_of ''data'' ''vol.h5'' None d60"
    using csv len d2 d3 by simp_all
  have b2: "body_rows (csv_list st) ! 2
      = [Number 2, Text ''data_0_60x100x0x40.png'', Text ''data'', Number 0,
         Number 60, Number 100, Number 0, Number 40, Text ''vol.h5'', Blank]"
    using body_rows_nth[of 2 "csv_list st"] cl c2 cells by simp
  have b3: "body_rows (csv_list st) ! 3
      = [Number 3, Text ''data_0_60x100x0x40.png'', Text ''data'', Number 0,
         Number 60, Number 100, Number 0, Number 40, Text ''vol.h5'', Blank]"
    using body_rows_nth[of 3 "csv_list st"] cl c3 cells by simp
  have h3: "?rows ! 3 = body_rows (csv_list st) ! 2" by simp
  have r3: "?rows ! 3 = [Number 2, Text ''data_0_60x100x0x40.png'', Text ''data'', Number 0,
                            Number 60, Number 100, Number 0, Number 40, Text ''vol.h5'', Blank]"
    by (simp only: h3 b2)
  have h4: "?rows ! 4 = body_rows (csv_list st) ! 3" by simp
  have r4: "?rows ! 4 = [Number 3, Text ''data_0_60x100x0x40.png'', Text ''data'', Number 0,
                            Number 60, Number 100, Number 0, Number 40, Text ''vol.h5'', Blank]"
    by (simp only: h4 b3)
  from f r0 r3 r4 have rows: "\<exists>rows.
        flush Map.empty ''out'' ''manifest.csv'' (csv_list st) ''out/manifest.csv'' = Some rows
      \<and> length rows = 17
      \<and> rows ! 3 = [Number 2, Text ''data_0_60x100x0x40.png'', Text ''data'', Number 0,
                    Number 60, Number 100, Number 0, Number 40, Text ''vol.h5'', Blank]
      \<and> rows ! 4 = [Number 3, Text ''data_0_60x100x0x40.png'', Text ''data'', Number 0,
                    Number 60, Number 100, Number 0, Number 40, Text ''vol.h5'', Blank]"
    by blast
  from ax m i1 i2 i3 rows show ?thesis unfolding A_def D_def L_def by blast
qed

section \<open>Element type after padding\<close>



end
